theory Spec2Isabelle
  imports Complex_Main "HOL-Library.Sublist"
begin

section \<open>Shared protocol: enumerations and limits\<close>

text \<open>
  The enumerations and constants of \<^verbatim>\<open>shared/protocol\<close>. The ready state of a socket
  is the one of the \<^verbatim>\<open>ws\<close> library; only \<^verbatim>\<open>OPEN\<close> is ever tested by the server.
\<close>

datatype PlayerState = CONNECTED | READY | ALIVE | ELIMINATED | DISCONNECTED

datatype GamePhase = LOBBY | PLAYING | GAME_OVER

datatype TurnResult = CORRECT | WRONG | ALREADY_USED | TIMEOUT

datatype ReadyState = CONNECTING | OPEN | CLOSING | CLOSED

definition MAX_PLAYERS :: nat where
  "MAX_PLAYERS = 8"

definition MIN_PLAYERS :: nat where
  "MIN_PLAYERS = 2"

definition DEFAULT_LIVES :: int where
  "DEFAULT_LIVES = 3"

definition DEFAULT_TURN_DURATION :: real where
  "DEFAULT_TURN_DURATION = 10"

section \<open>The word validator (game-logic.ts)\<close>

text \<open>
  The module keeps two variables, \<^verbatim>\<open>wordSet\<close> and \<^verbatim>\<open>comboList\<close>, filled once at boot.
  They are the first two fields of the environment. \<^verbatim>\<open>String.prototype.toUpperCase\<close> is a
  builtin of the language whose Unicode table is not part of the repository: it is the
  third field, so every theorem holds for whatever function it is. The last field is the
  sequence of values \<^verbatim>\<open>Math.random()\<close> returns inside successive calls of
  \<^verbatim>\<open>generateNewCombo\<close> (each lies in the interval from 0 up to but excluding 1).
\<close>

record env =
  wordSet :: "string set"
  comboList :: "string list"
  toUpperCase :: "string \<Rightarrow> string"
  random :: "nat \<Rightarrow> real"

text \<open>\<^verbatim>\<open>s.includes(t)\<close>: \<^verbatim>\<open>t\<close> occurs in \<^verbatim>\<open>s\<close> as a contiguous run.\<close>

fun str_includes :: "string \<Rightarrow> string \<Rightarrow> bool" where
  "str_includes [] t = (t = [])"
| "str_includes (c # s) t = (prefix t (c # s) \<or> str_includes s t)"

definition generateNewCombo :: "env \<Rightarrow> nat \<Rightarrow> string" where
  "generateNewCombo e n =
     (if length (comboList e) = 0 then ''???''
      else comboList e ! nat \<lfloor>random e n * real (length (comboList e))\<rfloor>)"

definition validateWord :: "env \<Rightarrow> string \<Rightarrow> string \<Rightarrow> string set \<Rightarrow> TurnResult" where
  "validateWord e word currentCombo usedWords =
     (if length word = 0 then WRONG
      else let upperWord = toUpperCase e word in
        if upperWord \<in> usedWords then ALREADY_USED
        else if \<not> str_includes upperWord (toUpperCase e currentCombo) then WRONG
        else if upperWord \<notin> wordSet e then WRONG
        else CORRECT)"

text \<open>
  The rule chain in the words of the specification: an ordered list of guarded outcomes,
  the first guard that holds decides, and the last outcome is the default.
\<close>

fun first_rule :: "(bool \<times> TurnResult) list \<Rightarrow> TurnResult \<Rightarrow> TurnResult" where
  "first_rule [] d = d"
| "first_rule ((b, r) # rules) d = (if b then r else first_rule rules d)"

definition validate_chain :: "env \<Rightarrow> string \<Rightarrow> string \<Rightarrow> string set \<Rightarrow> TurnResult" where
  "validate_chain e word combo used =
     first_rule
       [(word = [], WRONG),
        (toUpperCase e word \<in> used, ALREADY_USED),
        (\<not> str_includes (toUpperCase e word) (toUpperCase e combo), WRONG),
        (toUpperCase e word \<notin> wordSet e, WRONG)]
       CORRECT"

text \<open>An environment for concrete runs: upper-casing of the ASCII letters.\<close>

definition ascii_upper :: "char \<Rightarrow> char" where
  "ascii_upper c =
     (case map_of (zip ''abcdefghijklmnopqrstuvwxyz'' ''ABCDEFGHIJKLMNOPQRSTUVWXYZ'') c of
        Some u \<Rightarrow> u
      | None \<Rightarrow> c)"

definition demo_env :: env where
  "demo_env = \<lparr> wordSet = {''KALA'', ''KALAMEES'', ''LAUD''},
                 comboList = [''AL'', ''LA'', ''AU'', ''ME''],
                 toUpperCase = map ascii_upper,
                 random = (\<lambda>n. real (n mod 4) / 4) \<rparr>"

section \<open>Players, messages and the session state (types.ts, messages.ts)\<close>

text \<open>
  A socket is an object of the \<^verbatim>\<open>ws\<close> library. The server reads one thing of it, its
  \<^verbatim>\<open>readyState\<close>, and calls \<^verbatim>\<open>send\<close> on it. The model keeps the identity of the socket
  and the ready state it has while an operation runs.
\<close>

record WebSocket =
  wsId :: nat
  readyState :: ReadyState

text \<open>
  The interface \<^verbatim>\<open>Player\<close>. The fields \<^verbatim>\<open>id\<close> and \<^verbatim>\<open>name\<close> are called \<open>pid\<close> and
  \<open>pname\<close> here. \<^verbatim>\<open>lives\<close> and \<^verbatim>\<open>score\<close> are numbers that only ever hold integers.
\<close>

record Player =
  pid :: string
  pname :: string
  state :: PlayerState
  lives :: int
  score :: int
  isHost :: bool
  currentInput :: string
  ws :: WebSocket

definition createPlayer :: "string \<Rightarrow> string \<Rightarrow> WebSocket \<Rightarrow> bool \<Rightarrow> Player" where
  "createPlayer i n w h =
     \<lparr> pid = i, pname = n, state = CONNECTED, lives = DEFAULT_LIVES, score = 0,
       isHost = h, currentInput = [], ws = w \<rparr>"

text \<open>
  \<^verbatim>\<open>PlayerInfo\<close> and the server messages the session sends. The example words of a
  GAME_OVER message are a random sample of the dictionary and are left out; the failed
  combos themselves are kept.
\<close>

datatype PlayerInfo = PlayerInfo string string PlayerState int int bool string

datatype ServerMessage =
    MSG_PLAYER_LIST "PlayerInfo list" string
  | MSG_GAME_START string real string
  | MSG_TURN_START string real
  | MSG_TURN_INPUT string string
  | MSG_TURN_RESULT string TurnResult string string string "real option"
  | MSG_PLAYER_UPDATE string int int PlayerState
  | MSG_PLAYER_ELIMINATED string
  | MSG_GAME_OVER "string option" "string list"

text \<open>
  \<^verbatim>\<open>Map<string, Player>\<close> keeps its entries in insertion order, and the only insertion
  is \<^verbatim>\<open>players.set(id, createPlayer(id, ...))\<close>: the key of an entry is the \<^verbatim>\<open>id\<close> of its
  player. The map is the list of its values in insertion order. \<open>map_get\<close>, \<open>map_set\<close> and
  \<open>map_delete\<close> are \<^verbatim>\<open>get\<close>, \<^verbatim>\<open>set\<close> (an existing key keeps its place) and \<^verbatim>\<open>delete\<close>;
  \<open>update_player\<close> is an assignment to fields of the player object stored under a key.
\<close>

fun map_get :: "Player list \<Rightarrow> string \<Rightarrow> Player option" where
  "map_get [] k = None"
| "map_get (p # ps) k = (if pid p = k then Some p else map_get ps k)"

fun map_set :: "Player list \<Rightarrow> Player \<Rightarrow> Player list" where
  "map_set [] p = [p]"
| "map_set (q # qs) p = (if pid q = pid p then p # qs else q # map_set qs p)"

definition map_delete :: "Player list \<Rightarrow> string \<Rightarrow> Player list" where
  "map_delete ps k = filter (\<lambda>p. pid p \<noteq> k) ps"

fun update_player :: "(Player \<Rightarrow> Player) \<Rightarrow> string \<Rightarrow> Player list \<Rightarrow> Player list" where
  "update_player f k [] = []"
| "update_player f k (p # ps) = (if pid p = k then f p # ps else p # update_player f k ps)"

text \<open>\<^verbatim>\<open>Set.prototype.add\<close> on a set that is later iterated in insertion order.\<close>

definition set_add :: "string list \<Rightarrow> string \<Rightarrow> string list" where
  "set_add xs x = (if x \<in> set xs then xs else xs @ [x])"

text \<open>\<^verbatim>\<open>Array.prototype.indexOf\<close>: the first position of the element, or -1.\<close>

fun indexOf :: "string list \<Rightarrow> string \<Rightarrow> int" where
  "indexOf [] x = - 1"
| "indexOf (y # ys) x =
     (if y = x then 0 else (let i = indexOf ys x in if i < 0 then - 1 else i + 1))"

text \<open>
  The class \<^verbatim>\<open>GameSession\<close>: the fields of its \<^verbatim>\<open>GameState\<close> (\<^verbatim>\<open>id\<close> and \<^verbatim>\<open>name\<close> are
  \<open>gid\<close> and \<open>gname\<close>; \<^verbatim>\<open>turnTimerHandle\<close> is never assigned and is left out), then
  \<^verbatim>\<open>tickInterval\<close> (true when an interval is registered) and \<^verbatim>\<open>turnStartTime\<close>
  (milliseconds, a value of \<^verbatim>\<open>Date.now()\<close>). Two fields are added to observe effects:
  \<open>sent\<close> lists, oldest first, every message handed to a socket's \<^verbatim>\<open>send\<close>, with the
  socket's identity; \<open>combosGenerated\<close> counts the calls of \<^verbatim>\<open>generateNewCombo\<close>. Times
  are real numbers: the rounding of the floating-point division by 1000 is not modelled.
\<close>

record GameSession =
  gid :: string
  gname :: string
  phase :: GamePhase
  players :: "Player list"
  hostId :: string
  currentCombo :: string
  currentTurnPlayerId :: string
  turnTimer :: real
  turnDuration :: real
  usedWords :: "string set"
  comboChangePerRound :: bool
  roundStartPlayerId :: string
  failedCombos :: "string list"
  tickInterval :: bool
  turnStartTime :: int
  sent :: "(nat \<times> ServerMessage) list"
  combosGenerated :: nat

definition newGameSession :: "string \<Rightarrow> string \<Rightarrow> string \<Rightarrow> GameSession" where
  "newGameSession i n h =
     \<lparr> gid = i, gname = n, phase = LOBBY, players = [], hostId = h, currentCombo = [],
       currentTurnPlayerId = [], turnTimer = DEFAULT_TURN_DURATION,
       turnDuration = DEFAULT_TURN_DURATION, usedWords = {}, comboChangePerRound = True,
       roundStartPlayerId = [], failedCombos = [], tickInterval = False, turnStartTime = 0,
       sent = [], combosGenerated = 0 \<rparr>"

text \<open>\<^verbatim>\<open>broadcastToGame\<close>: one \<^verbatim>\<open>send\<close> per player whose socket is open, in map order.\<close>

definition broadcastToGame :: "Player list \<Rightarrow> ServerMessage \<Rightarrow> (nat \<times> ServerMessage) list" where
  "broadcastToGame ps m =
     map (\<lambda>p. (wsId (ws p), m)) (filter (\<lambda>p. readyState (ws p) = OPEN) ps)"

definition broadcast :: "ServerMessage \<Rightarrow> GameSession \<Rightarrow> GameSession" where
  "broadcast m s = s\<lparr>sent := sent s @ broadcastToGame (players s) m\<rparr>"

definition getPlayersInfo :: "GameSession \<Rightarrow> PlayerInfo list" where
  "getPlayersInfo s =
     map (\<lambda>p. PlayerInfo (pid p) (pname p) (state p) (lives p) (score p) (isHost p) (currentInput p))
         (players s)"

definition broadcastPlayerList :: "GameSession \<Rightarrow> GameSession" where
  "broadcastPlayerList s = broadcast (MSG_PLAYER_LIST (getPlayersInfo s) (hostId s)) s"

definition playerCount :: "GameSession \<Rightarrow> nat" where
  "playerCount s = length (players s)"

section \<open>The session engine (game-session.ts)\<close>

definition addPlayer :: "string \<Rightarrow> string \<Rightarrow> WebSocket \<Rightarrow> GameSession \<Rightarrow> Player option \<times> GameSession" where
  "addPlayer i n w s =
     (if length (players s) \<ge> MAX_PLAYERS then (None, s)
      else if phase s \<noteq> LOBBY then (None, s)
      else let h = (length (players s) = 0);
               player = createPlayer i n w h;
               s1 = s\<lparr>players := map_set (players s) player\<rparr>;
               s2 = (if h then s1\<lparr>hostId := i\<rparr> else s1)
           in (Some player, s2))"

definition stopTurnTimer :: "GameSession \<Rightarrow> GameSession" where
  "stopTurnTimer s = (if tickInterval s then s\<lparr>tickInterval := False\<rparr> else s)"

definition startTurnTimer :: "int \<Rightarrow> GameSession \<Rightarrow> GameSession" where
  "startTurnTimer now s =
     (let s1 = stopTurnTimer s;
          s2 = s1\<lparr>turnStartTime := now, turnTimer := turnDuration s1\<rparr>;
          s3 = broadcast (MSG_TURN_START (currentTurnPlayerId s2) (turnDuration s2)) s2
      in s3\<lparr>tickInterval := True\<rparr>)"

text \<open>
  \<^verbatim>\<open>endGame\<close> and \<^verbatim>\<open>checkWinCondition\<close>. The loop of the win check counts the ALIVE
  players and remembers the last one; \<^verbatim>\<open>lastAlivePlayer?.id || null\<close> is null also when
  the id is the empty string.
\<close>

definition endGame :: "string option \<Rightarrow> GameSession \<Rightarrow> GameSession" where
  "endGame winnerId s =
     (let s1 = stopTurnTimer s;
          s2 = s1\<lparr>phase := GAME_OVER\<rparr>
      in broadcast (MSG_GAME_OVER winnerId (failedCombos s2)) s2)"

fun countAlive :: "Player list \<Rightarrow> nat \<times> Player option \<Rightarrow> nat \<times> Player option" where
  "countAlive [] acc = acc"
| "countAlive (p # ps) (aliveCount, lastAlivePlayer) =
     (if state p = ALIVE then countAlive ps (aliveCount + 1, Some p)
      else countAlive ps (aliveCount, lastAlivePlayer))"

definition checkWinCondition :: "GameSession \<Rightarrow> GameSession \<times> bool" where
  "checkWinCondition s =
     (let (aliveCount, lastAlivePlayer) = countAlive (players s) (0, None) in
      if length (players s) = 1 \<and> aliveCount = 0 then (endGame None s, True)
      else if length (players s) > 1 \<and> aliveCount \<le> 1 then
        (endGame (case lastAlivePlayer of
                    None \<Rightarrow> None
                  | Some p \<Rightarrow> if pid p = [] then None else Some (pid p)) s, True)
      else (s, False))"

text \<open>
  \<^verbatim>\<open>advanceToNextPlayer\<close>. The loop looks at most \<^verbatim>\<open>playerIds.length\<close> times for an ALIVE
  player, from the position after the current one, and returns from inside the loop when
  it finds one: \<open>advance_scan\<close> is the loop and gives the index it stops at, \<open>advance_to\<close> is
  the body run at that index.
\<close>

function advance_scan :: "Player list \<Rightarrow> nat \<Rightarrow> nat \<Rightarrow> nat option" where
  "advance_scan ps nextIndex attempts =
     (if attempts < length ps then
        (case map_get ps (map pid ps ! nextIndex) of
           Some nextPlayer \<Rightarrow>
             if state nextPlayer = ALIVE then Some nextIndex
             else advance_scan ps ((nextIndex + 1) mod length ps) (attempts + 1)
         | None \<Rightarrow> advance_scan ps ((nextIndex + 1) mod length ps) (attempts + 1))
      else None)"
  by pat_completeness auto
termination
  by (relation "measure (\<lambda>(ps, nextIndex, attempts). length ps - attempts)") auto

definition roundStartAlive :: "GameSession \<Rightarrow> bool" where
  "roundStartAlive s =
     (case map_get (players s) (roundStartPlayerId s) of
        None \<Rightarrow> False
      | Some roundStartPlayer \<Rightarrow> state roundStartPlayer = ALIVE)"

definition advance_to :: "env \<Rightarrow> bool \<Rightarrow> string \<Rightarrow> GameSession \<Rightarrow> GameSession" where
  "advance_to e mayChangeCombo nextPlayerId s =
     (let s1 = (if \<not> roundStartAlive s then s\<lparr>roundStartPlayerId := nextPlayerId\<rparr> else s);
          everyoneTriedCombo = (nextPlayerId = roundStartPlayerId s1);
          s2 = (if mayChangeCombo \<or> everyoneTriedCombo
                then s1\<lparr>currentCombo := generateNewCombo e (combosGenerated s1),
                        combosGenerated := combosGenerated s1 + 1,
                        roundStartPlayerId := nextPlayerId\<rparr>
                else s1)
      in s2\<lparr>currentTurnPlayerId := nextPlayerId,
            turnTimer := turnDuration s2,
            players := update_player (\<lambda>p. p\<lparr>currentInput := []\<rparr>) nextPlayerId (players s2)\<rparr>)"

definition advanceToNextPlayer :: "env \<Rightarrow> bool \<Rightarrow> GameSession \<Rightarrow> GameSession" where
  "advanceToNextPlayer e mayChangeCombo s =
     (let playerIds = map pid (players s) in
      if length playerIds = 0 then s
      else let currentIndex = indexOf playerIds (currentTurnPlayerId s);
               nextIndex = nat ((currentIndex + 1) mod int (length playerIds))
           in case advance_scan (players s) nextIndex 0 of
                None \<Rightarrow> s
              | Some i \<Rightarrow> advance_to e mayChangeCombo (playerIds ! i) s)"

declare advance_scan.simps [simp del]

definition removePlayer :: "env \<Rightarrow> string \<Rightarrow> GameSession \<Rightarrow> GameSession" where
  "removePlayer e playerId s =
     (case map_get (players s) playerId of
        None \<Rightarrow> s
      | Some player \<Rightarrow>
          let s1 = s\<lparr>players := map_delete (players s) playerId\<rparr>;
              s2 = (if isHost player \<and> length (players s1) > 0 then
                      (case players s1 of
                         [] \<Rightarrow> s1
                       | newHost # rest \<Rightarrow>
                           s1\<lparr>players := newHost\<lparr>isHost := True\<rparr> # rest, hostId := pid newHost\<rparr>)
                    else s1);
              s3 = (if phase s2 = PLAYING then
                      (let s' = (if currentTurnPlayerId s2 = playerId
                                 then advanceToNextPlayer e False s2 else s2)
                       in fst (checkWinCondition s'))
                    else s2)
          in broadcastPlayerList s3)"

definition setPlayerReady :: "string \<Rightarrow> bool \<Rightarrow> GameSession \<Rightarrow> GameSession" where
  "setPlayerReady playerId ready s =
     (case map_get (players s) playerId of
        None \<Rightarrow> s
      | Some player \<Rightarrow>
          broadcastPlayerList
            (s\<lparr>players := update_player (\<lambda>p. p\<lparr>state := (if ready then READY else CONNECTED)\<rparr>)
                                        playerId (players s)\<rparr>))"

fun readyCount :: "Player list \<Rightarrow> nat" where
  "readyCount [] = 0"
| "readyCount (p # ps) = (if state p = READY then readyCount ps + 1 else readyCount ps)"

definition canStartGame :: "GameSession \<Rightarrow> bool" where
  "canStartGame s = (readyCount (players s) \<ge> MIN_PLAYERS)"

text \<open>
  \<^verbatim>\<open>startGame\<close>: the first loop turns the READY players into ALIVE ones, the second stops
  at the first ALIVE player. \<^verbatim>\<open>Date.now()\<close> is read once, by \<^verbatim>\<open>startTurnTimer\<close>: it is the
  argument \<open>now\<close> of every operation that reaches it.
\<close>

definition makeAlive :: "Player \<Rightarrow> Player" where
  "makeAlive player =
     (if state player = READY
      then player\<lparr>state := ALIVE, lives := DEFAULT_LIVES, score := 0, currentInput := []\<rparr>
      else player)"

definition startGame :: "env \<Rightarrow> int \<Rightarrow> GameSession \<Rightarrow> GameSession \<times> bool" where
  "startGame e now s =
     (if \<not> canStartGame s then (s, False)
      else let s1 = s\<lparr>players := map makeAlive (players s)\<rparr>;
               s2 = s1\<lparr>usedWords := {}, failedCombos := [], phase := PLAYING,
                       currentCombo := generateNewCombo e (combosGenerated s1),
                       combosGenerated := combosGenerated s1 + 1,
                       turnTimer := turnDuration s1\<rparr>;
               s3 = (case find (\<lambda>p. state p = ALIVE) (players s2) of
                       None \<Rightarrow> s2
                     | Some player \<Rightarrow>
                         s2\<lparr>currentTurnPlayerId := pid player, roundStartPlayerId := pid player\<rparr>);
               s4 = broadcast (MSG_GAME_START (currentTurnPlayerId s3) (turnDuration s3)
                                              (currentCombo s3)) s3
           in (startTurnTimer now s4, True))"

definition handleTurnInput :: "string \<Rightarrow> string \<Rightarrow> GameSession \<Rightarrow> GameSession" where
  "handleTurnInput playerId input s =
     (if phase s \<noteq> PLAYING then s
      else if playerId \<noteq> currentTurnPlayerId s then s
      else case map_get (players s) playerId of
             None \<Rightarrow> s
           | Some player \<Rightarrow>
               if state player \<noteq> ALIVE then s
               else broadcast (MSG_TURN_INPUT playerId input)
                      (s\<lparr>players := update_player (\<lambda>p. p\<lparr>currentInput := input\<rparr>)
                                                  playerId (players s)\<rparr>))"

text \<open>
  \<^verbatim>\<open>processTurnResult\<close> receives the player object that its caller has just read from the
  map: the assignments to its fields are updates of the entry under its id, and
  \<open>player'\<close> is the object as the two closing messages read it (the fields they read are
  not touched by \<^verbatim>\<open>advanceToNextPlayer\<close>).
\<close>

definition processTurnResult ::
    "env \<Rightarrow> Player \<Rightarrow> TurnResult \<Rightarrow> string \<Rightarrow> int \<Rightarrow> GameSession \<Rightarrow> GameSession" where
  "processTurnResult e player result word now s =
     (let s0 = stopTurnTimer s;
          (player', s1) =
            (case result of
               CORRECT \<Rightarrow>
                 (let sa = s0\<lparr>players := update_player (\<lambda>p. p\<lparr>score := score p + 1\<rparr>)
                                                         (pid player) (players s0)\<rparr>;
                      sb = sa\<lparr>usedWords := insert (toUpperCase e word) (usedWords sa)\<rparr>;
                      sc = sb\<lparr>players := update_player (\<lambda>p. p\<lparr>currentInput := []\<rparr>)
                                                         (pid player) (players sb)\<rparr>
                  in (player\<lparr>score := score player + 1, currentInput := []\<rparr>,
                      advanceToNextPlayer e True sc))
             | TIMEOUT \<Rightarrow>
                 (let sa = s0\<lparr>failedCombos := set_add (failedCombos s0) (currentCombo s0)\<rparr>;
                      sb = sa\<lparr>players := update_player (\<lambda>p. p\<lparr>lives := lives p - 1\<rparr>)
                                                         (pid player) (players sa)\<rparr>;
                      p1 = player\<lparr>lives := lives player - 1\<rparr>;
                      sc = (if lives p1 \<le> 0
                            then broadcast (MSG_PLAYER_ELIMINATED (pid p1))
                                   (sb\<lparr>players := update_player (\<lambda>p. p\<lparr>state := ELIMINATED\<rparr>)
                                                                (pid player) (players sb)\<rparr>)
                            else sb);
                      p2 = (if lives p1 \<le> 0 then p1\<lparr>state := ELIMINATED\<rparr> else p1);
                      sd = sc\<lparr>players := update_player (\<lambda>p. p\<lparr>currentInput := []\<rparr>)
                                                         (pid player) (players sc)\<rparr>
                  in (p2\<lparr>currentInput := []\<rparr>, advanceToNextPlayer e False sd))
             | _ \<Rightarrow> (player, s0));
          s2 = broadcast (MSG_PLAYER_UPDATE (pid player') (lives player') (score player')
                                            (state player')) s1;
          s3 = broadcast (MSG_TURN_RESULT (pid player') result (currentTurnPlayerId s2)
                                          (currentCombo s2) word None) s2;
          (s4, won) = checkWinCondition s3
      in if won then s4 else startTurnTimer now s4)"

definition handleTurnSubmit :: "env \<Rightarrow> string \<Rightarrow> string \<Rightarrow> int \<Rightarrow> GameSession \<Rightarrow> GameSession" where
  "handleTurnSubmit e playerId word now s =
     (if phase s \<noteq> PLAYING then s
      else if playerId \<noteq> currentTurnPlayerId s then s
      else case map_get (players s) playerId of
             None \<Rightarrow> s
           | Some player \<Rightarrow>
               if state player \<noteq> ALIVE then s
               else let result = validateWord e word (currentCombo s) (usedWords s) in
                 if result = WRONG \<or> result = ALREADY_USED then
                   (let elapsed = real_of_int (now - turnStartTime s) / 1000;
                        remaining = max 0 (turnDuration s - elapsed)
                    in broadcast (MSG_TURN_RESULT (pid player) result (pid player)
                                                  (currentCombo s) word (Some remaining)) s)
                 else processTurnResult e player result word now s)"

definition handleTimeout :: "env \<Rightarrow> int \<Rightarrow> GameSession \<Rightarrow> GameSession" where
  "handleTimeout e now s =
     (let s1 = stopTurnTimer s in
      case map_get (players s1) (currentTurnPlayerId s1) of
        None \<Rightarrow> s1
      | Some player \<Rightarrow> processTurnResult e player TIMEOUT [] now s1)"

text \<open>
  The callback that \<^verbatim>\<open>startTurnTimer\<close> registers with \<^verbatim>\<open>setInterval\<close>. It runs only while
  the interval is registered, and it is the only caller of \<^verbatim>\<open>handleTimeout\<close>.
\<close>

definition tick :: "env \<Rightarrow> int \<Rightarrow> GameSession \<Rightarrow> GameSession" where
  "tick e now s =
     (if \<not> tickInterval s then s
      else let elapsed = real_of_int (now - turnStartTime s) / 1000;
               s1 = s\<lparr>turnTimer := turnDuration s - elapsed\<rparr>
           in if turnTimer s1 \<le> 0 then handleTimeout e now s1 else s1)"

definition resetPlayer :: "Player \<Rightarrow> Player" where
  "resetPlayer player =
     player\<lparr>state := CONNECTED, lives := DEFAULT_LIVES, score := 0, currentInput := []\<rparr>"

definition returnToLobby :: "GameSession \<Rightarrow> GameSession" where
  "returnToLobby s =
     (let s1 = stopTurnTimer s;
          s2 = s1\<lparr>phase := LOBBY, usedWords := {}, currentCombo := [],
                  currentTurnPlayerId := [], roundStartPlayerId := []\<rparr>;
          s3 = s2\<lparr>players := map resetPlayer (players s2)\<rparr>
      in broadcastPlayerList s3)"

definition setComboChangePerRound :: "bool \<Rightarrow> GameSession \<Rightarrow> GameSession" where
  "setComboChangePerRound enabled s = s\<lparr>comboChangePerRound := enabled\<rparr>"

definition cleanup :: "GameSession \<Rightarrow> GameSession" where
  "cleanup s = stopTurnTimer s"

text \<open>
  The operations of the engine as events, and the session after a sequence of them. The
  public methods are callable in any phase; the timer callback is \<open>Tick\<close>.
\<close>

datatype Event =
    AddPlayer string string WebSocket
  | RemovePlayer string
  | SetPlayerReady string bool
  | StartGame int
  | HandleTurnInput string string
  | HandleTurnSubmit string string int
  | Tick int
  | ReturnToLobby
  | SetComboChangePerRound bool
  | Cleanup

fun step :: "env \<Rightarrow> Event \<Rightarrow> GameSession \<Rightarrow> GameSession" where
  "step e (AddPlayer i n w) s = snd (addPlayer i n w s)"
| "step e (RemovePlayer i) s = removePlayer e i s"
| "step e (SetPlayerReady i r) s = setPlayerReady i r s"
| "step e (StartGame now) s = fst (startGame e now s)"
| "step e (HandleTurnInput i t) s = handleTurnInput i t s"
| "step e (HandleTurnSubmit i w now) s = handleTurnSubmit e i w now s"
| "step e (Tick now) s = tick e now s"
| "step e ReturnToLobby s = returnToLobby s"
| "step e (SetComboChangePerRound b) s = setComboChangePerRound b s"
| "step e Cleanup s = cleanup s"

fun run :: "env \<Rightarrow> Event list \<Rightarrow> GameSession \<Rightarrow> GameSession" where
  "run e [] s = s"
| "run e (ev # evs) s = run e evs (step e ev s)"

section \<open>The lobby manager (lobby-manager.ts)\<close>

text \<open>
  \<^verbatim>\<open>LobbyManager\<close> keeps the sessions by id and the registered clients by socket. The
  result \<^verbatim>\<open>{ success, reason }\<close> of \<^verbatim>\<open>joinGame\<close> is a sum: the five reasons are the
  strings 'Not registered', 'Game not found', 'Game already started', 'Game is full' and
  'Failed to join'. The session object is changed in place by \<^verbatim>\<open>addPlayer\<close>: the model
  stores the session that \<open>addPlayer\<close> returns back under its id.
\<close>

record ClientInfo =
  playerId :: string
  gameId :: "string option"

record LobbyManager =
  games :: "string \<rightharpoonup> GameSession"
  clients :: "nat \<rightharpoonup> ClientInfo"

datatype JoinError = NotRegistered | GameNotFound | GameAlreadyStarted | GameIsFull | FailedToJoin

definition joinGame ::
    "WebSocket \<Rightarrow> string \<Rightarrow> string \<Rightarrow> LobbyManager \<Rightarrow> (JoinError + unit) \<times> LobbyManager" where
  "joinGame w gId playerName lm =
     (case clients lm (wsId w) of
        None \<Rightarrow> (Inl NotRegistered, lm)
      | Some client \<Rightarrow>
          (case games lm gId of
             None \<Rightarrow> (Inl GameNotFound, lm)
           | Some game \<Rightarrow>
               if phase game \<noteq> LOBBY then (Inl GameAlreadyStarted, lm)
               else if playerCount game \<ge> MAX_PLAYERS then (Inl GameIsFull, lm)
               else (case addPlayer (playerId client) playerName w game of
                       (None, game') \<Rightarrow>
                         (Inl FailedToJoin, lm\<lparr>games := (games lm)(gId \<mapsto> game')\<rparr>)
                     | (Some player, game') \<Rightarrow>
                         (Inr (),
                          lm\<lparr>games := (games lm)(gId \<mapsto> game'),
                             clients := (clients lm)(wsId w \<mapsto> client\<lparr>gameId := Some gId\<rparr>)\<rparr>))))"

section \<open>Notions of the specification\<close>

text \<open>The players of a session that are still ALIVE, in roster order.\<close>

definition alivePlayers :: "GameSession \<Rightarrow> Player list" where
  "alivePlayers s = filter (\<lambda>p. state p = ALIVE) (players s)"

text \<open>
  The round-robin order of the specification: the roster from the position after the
  player who holds the turn, wrapping around once, so that this player comes last (from
  the first position when the turn holder is not in the roster). The next player is
  the first ALIVE one in this order.
\<close>

definition nextAlive :: "Player list \<Rightarrow> string \<Rightarrow> Player option" where
  "nextAlive ps k =
     find (\<lambda>p. state p = ALIVE) (rotate (nat (indexOf (map pid ps) k + 1)) ps)"

text \<open>
  A player after a timeout, in the words of the specification: one life less, ELIMINATED
  when no life is left, transient input cleared. And the part of a session that
  \<^verbatim>\<open>advanceToNextPlayer\<close> reads and writes.
\<close>

definition timedOut :: "Player \<Rightarrow> Player" where
  "timedOut p =
     p\<lparr>lives := lives p - 1,
       state := (if lives p - 1 \<le> 0 then ELIMINATED else state p),
       currentInput := []\<rparr>"

definition turnFields :: "GameSession \<Rightarrow> Player list \<times> string \<times> string \<times> string \<times> nat" where
  "turnFields s =
     (players s, currentTurnPlayerId s, currentCombo s, roundStartPlayerId s, combosGenerated s)"

text \<open>
  The invariant of the engine. A player's lives are in order when they are not negative
  and, for an ALIVE player, at least one. A session is in order when the ids of its
  players are pairwise different, every player's lives are in order, and, while the turn
  timer is registered, the player who holds the turn (if still in the session) has at
  least one life. \<open>keeps\<close> relates a player before and after a change that leaves id and
  lives alone and does not make the player ALIVE; \<open>alive_at\<close> is the test of the scan in
  \<^verbatim>\<open>advanceToNextPlayer\<close> at one index.
\<close>

definition livesOk :: "Player \<Rightarrow> bool" where
  "livesOk p = (0 \<le> lives p \<and> (state p = ALIVE \<longrightarrow> 1 \<le> lives p))"

definition turnOk :: "GameSession \<Rightarrow> bool" where
  "turnOk s =
     (case map_get (players s) (currentTurnPlayerId s) of None \<Rightarrow> True | Some p \<Rightarrow> 1 \<le> lives p)"

definition session_inv :: "GameSession \<Rightarrow> bool" where
  "session_inv s =
     (distinct (map pid (players s)) \<and> list_all livesOk (players s)
      \<and> (tickInterval s \<longrightarrow> turnOk s))"

definition keeps :: "Player \<Rightarrow> Player \<Rightarrow> bool" where
  "keeps p p' = (pid p' = pid p \<and> lives p' = lives p \<and> (state p' = ALIVE \<longrightarrow> state p = ALIVE))"

definition alive_at :: "Player list \<Rightarrow> nat \<Rightarrow> bool" where
  "alive_at ps j =
     (case map_get ps (map pid ps ! j) of None \<Rightarrow> False | Some q \<Rightarrow> state q = ALIVE)"

section \<open>Sessions for concrete runs\<close>

text \<open>
  Three clients with open sockets join a new session; the first two set ready. After
  \<^verbatim>\<open>startGame\<close> the first two are ALIVE and the third is still CONNECTED.
\<close>

definition open_ws :: "nat \<Rightarrow> WebSocket" where
  "open_ws n = \<lparr> wsId = n, readyState = OPEN \<rparr>"

definition demo_lobby :: GameSession where
  "demo_lobby =
     run demo_env
       [AddPlayer ''p1'' ''Ann'' (open_ws 1), AddPlayer ''p2'' ''Bob'' (open_ws 2),
        AddPlayer ''p3'' ''Cid'' (open_ws 3),
        SetPlayerReady ''p1'' True, SetPlayerReady ''p2'' True]
       (newGameSession ''g1'' ''Game'' ''p1'')"

definition demo_playing :: GameSession where
  "demo_playing = run demo_env [StartGame 1000] demo_lobby"

definition demo_second_turn :: GameSession where
  "demo_second_turn = run demo_env [HandleTurnSubmit ''p1'' ''kala'' 2000] demo_playing"

text \<open>
  The second player leaves the running match: one ALIVE player is left of two, and the
  match is over. A registered client that is in no session then asks to join.
\<close>

definition demo_game_over :: GameSession where
  "demo_game_over = run demo_env [RemovePlayer ''p2''] demo_playing"

definition demo_manager :: LobbyManager where
  "demo_manager =
     \<lparr> games = [''g1'' \<mapsto> demo_game_over, ''g2'' \<mapsto> demo_lobby, ''g3'' \<mapsto> demo_playing],
       clients = [9 \<mapsto> \<lparr> playerId = ''p9'', gameId = None \<rparr>] \<rparr>"

text \<open>The running match without its second player, before any win check.\<close>

definition demo_one_alive :: GameSession where
  "demo_one_alive = demo_playing\<lparr>players := map_delete (players demo_playing) ''p2''\<rparr>"

text \<open>
  A match of all three players in which nobody ever answers: every turn ends in a
  timeout, ten seconds after it started. After six timeouts each player has one life left.
\<close>

definition demo_three_started :: GameSession where
  "demo_three_started = run demo_env [SetPlayerReady ''p3'' True, StartGame 1000] demo_lobby"

definition demo_five_timeouts :: GameSession where
  "demo_five_timeouts =
     run demo_env [Tick 11000, Tick 21000, Tick 31000, Tick 41000, Tick 51000] demo_three_started"

definition demo_six_timeouts :: GameSession where
  "demo_six_timeouts = run demo_env [Tick 61000] demo_five_timeouts"

text \<open>
  During the second turn of the two-player match, with one word used, both players send
  the ready message again.
\<close>

definition demo_ready_again :: GameSession where
  "demo_ready_again =
     run demo_env [SetPlayerReady ''p1'' True, SetPlayerReady ''p2'' True] demo_second_turn"

text \<open>
  In the two-player match the player who holds the turn sends the ready message with
  \<^verbatim>\<open>ready = false\<close> while the timer runs.
\<close>

definition demo_not_ready_turn :: GameSession where
  "demo_not_ready_turn = run demo_env [SetPlayerReady ''p1'' False] demo_playing"

text \<open>
  A whole match of the three players. The first player answers once; after that nobody
  answers, and the second and third player lose their three lives. The first player wins
  with one life and one point. Without a return to the lobby, the two losers set ready.
\<close>

definition demo_first_correct :: GameSession where
  "demo_first_correct = run demo_env [HandleTurnSubmit ''p1'' ''kala'' 2000] demo_three_started"

definition demo_match_won :: GameSession where
  "demo_match_won =
     run demo_env
       [Tick 12000, Tick 22000, Tick 32000, Tick 42000, Tick 52000, Tick 62000, Tick 72000,
        Tick 82000]
       demo_first_correct"

definition demo_rematch_ready :: GameSession where
  "demo_rematch_ready =
     run demo_env [SetPlayerReady ''p2'' True, SetPlayerReady ''p3'' True] demo_match_won"

section \<open>Validation\<close>

lemma includes_sublist: "str_includes s t = sublist t s"
proof (induction s)
  case Nil
  show ?case by simp
next
  case (Cons c s)
  show ?case
  proof (cases t)
    case Nil
    then show ?thesis by simp
  next
    case (Cons d u)
    then show ?thesis using Cons.IH by (simp add: sublist_Cons_right)
  qed
qed

text \<open>
  C5. \<^verbatim>\<open>validateWord\<close> is exactly the ordered rule chain of the specification: empty word
  gives WRONG; else an upper-cased word already in \<^verbatim>\<open>usedWords\<close> gives ALREADY_USED; else
  an upper-cased word that does not contain the upper-cased combo gives WRONG; else an
  upper-cased word outside the dictionary gives WRONG; else CORRECT. The outcome is never
  TIMEOUT. The three outcomes are also characterised one by one.
\<close>

theorem validateWord_rule_chain:
  "validateWord e word combo used = validate_chain e word combo used
   \<and> validateWord e word combo used \<noteq> TIMEOUT
   \<and> (validateWord e word combo used = ALREADY_USED
        \<longleftrightarrow> word \<noteq> [] \<and> toUpperCase e word \<in> used)
   \<and> (validateWord e word combo used = CORRECT
        \<longleftrightarrow> word \<noteq> [] \<and> toUpperCase e word \<notin> used
            \<and> sublist (toUpperCase e combo) (toUpperCase e word)
            \<and> toUpperCase e word \<in> wordSet e)"
  by (simp add: validateWord_def validate_chain_def Let_def includes_sublist)

theorem validateWord_rule_chain_witness:
  "validateWord demo_env ''kala'' ''al'' {} = CORRECT
   \<and> validate_chain demo_env ''kala'' ''al'' {} = CORRECT
   \<and> validateWord demo_env ''Kala'' ''al'' {''KALA''} = ALREADY_USED
   \<and> validateWord demo_env ''kalx'' ''al'' {} = WRONG"
  using validateWord_rule_chain [of demo_env "''kala''" "''al''" "{}"]
        validateWord_rule_chain [of demo_env "''Kala''" "''al''" "{''KALA''}"]
        validateWord_rule_chain [of demo_env "''kalx''" "''al''" "{}"]
  by (simp add: validate_chain_def demo_env_def ascii_upper_def)

section \<open>Lookups in the player map\<close>

lemma map_get_Some_pid: "map_get ps k = Some p \<Longrightarrow> pid p = k"
  by (induction ps) (auto split: if_splits)

lemma map_get_Some_mem: "map_get ps k = Some p \<Longrightarrow> p \<in> set ps"
  by (induction ps) (auto split: if_splits)

lemma broadcastToGame_update_player:
  "(\<And>p. ws (f p) = ws p) \<Longrightarrow> broadcastToGame (update_player f k ps) m = broadcastToGame ps m"
  by (induction ps) (auto simp: broadcastToGame_def)

lemma broadcastToGame_mem:
  "p \<in> set ps \<Longrightarrow> readyState (ws p) = OPEN \<Longrightarrow> (wsId (ws p), m) \<in> set (broadcastToGame ps m)"
  by (auto simp: broadcastToGame_def)

section \<open>Starting a match\<close>

lemma startGame_succeeds: "snd (startGame e now s) = canStartGame s"
  by (simp add: startGame_def Let_def)

lemma players_startGame:
  "canStartGame s \<Longrightarrow> players (fst (startGame e now s)) = map makeAlive (players s)"
  by (simp add: startGame_def Let_def startTurnTimer_def stopTurnTimer_def broadcast_def
           split: option.splits)

text \<open>
  What \<^verbatim>\<open>startGame\<close> leaves alone. When it succeeds, the roster keeps its length and
  order, and every player who is not READY at the call is the same record afterwards:
  state, lives, score, current input and every other field keep their values.
\<close>

theorem startGame_non_ready_unchanged:
  assumes "snd (startGame e now s)"
  shows "map pid (players (fst (startGame e now s))) = map pid (players s)
    \<and> (\<forall>i < length (players s). state (players s ! i) \<noteq> READY
          \<longrightarrow> players (fst (startGame e now s)) ! i = players s ! i)"
proof -
  from assms have c: "canStartGame s" by (simp add: startGame_succeeds)
  have "pid (makeAlive p) = pid p" for p by (simp add: makeAlive_def)
  then show ?thesis by (simp add: players_startGame [OF c] makeAlive_def)
qed

theorem startGame_non_ready_unchanged_witness:
  "snd (startGame demo_env 1000 demo_lobby)
   \<and> state (players demo_lobby ! 2) = CONNECTED
   \<and> players (fst (startGame demo_env 1000 demo_lobby)) ! 2 = players demo_lobby ! 2
   \<and> state (players (fst (startGame demo_env 1000 demo_lobby)) ! 0) = ALIVE"
proof -
  have h: "snd (startGame demo_env 1000 demo_lobby)" by code_simp
  have l: "2 < length (players demo_lobby)" by code_simp
  have c: "state (players demo_lobby ! 2) = CONNECTED" by code_simp
  have a: "state (players (fst (startGame demo_env 1000 demo_lobby)) ! 0) = ALIVE" by code_simp
  from startGame_non_ready_unchanged [OF h] l c
  have "players (fst (startGame demo_env 1000 demo_lobby)) ! 2 = players demo_lobby ! 2" by simp
  with h c a show ?thesis by simp
qed

section \<open>Submitting and typing\<close>

text \<open>
  C3. The current ALIVE player submits a word that validates as WRONG or ALREADY_USED. The
  session is what it was except for the messages sent: the turn pointer, the combo, the
  used words, every player (lives and score among the fields), the registered interval,
  the turn's start time and the timer value are unchanged. The TURN_RESULT message names
  the same player as next player and carries the remaining time, the turn duration minus
  the seconds elapsed since the turn started, not below 0; it reaches the submitter when
  their socket is open. The guards of \<^verbatim>\<open>handleTurnSubmit\<close> still hold afterwards.
\<close>

theorem handleTurnSubmit_wrong_keeps_turn:
  assumes "phase s = PLAYING" and "i = currentTurnPlayerId s"
    and "map_get (players s) i = Some player" and "state player = ALIVE"
    and "validateWord e word (currentCombo s) (usedWords s) = r"
    and "r = WRONG \<or> r = ALREADY_USED"
  shows "handleTurnSubmit e i word now s =
           s\<lparr>sent := sent s @ broadcastToGame (players s)
              (MSG_TURN_RESULT i r i (currentCombo s) word
                 (Some (max 0 (turnDuration s - real_of_int (now - turnStartTime s) / 1000))))\<rparr>
    \<and> currentTurnPlayerId (handleTurnSubmit e i word now s) = i
    \<and> currentCombo (handleTurnSubmit e i word now s) = currentCombo s
    \<and> usedWords (handleTurnSubmit e i word now s) = usedWords s
    \<and> players (handleTurnSubmit e i word now s) = players s
    \<and> tickInterval (handleTurnSubmit e i word now s) = tickInterval s
    \<and> turnStartTime (handleTurnSubmit e i word now s) = turnStartTime s
    \<and> turnTimer (handleTurnSubmit e i word now s) = turnTimer s
    \<and> phase (handleTurnSubmit e i word now s) = PLAYING
    \<and> map_get (players (handleTurnSubmit e i word now s)) i = Some player
    \<and> (readyState (ws player) = OPEN \<longrightarrow>
          (wsId (ws player),
           MSG_TURN_RESULT i r i (currentCombo s) word
             (Some (max 0 (turnDuration s - real_of_int (now - turnStartTime s) / 1000))))
          \<in> set (sent (handleTurnSubmit e i word now s)))"
proof -
  have eq: "handleTurnSubmit e i word now s =
           s\<lparr>sent := sent s @ broadcastToGame (players s)
              (MSG_TURN_RESULT i r i (currentCombo s) word
                 (Some (max 0 (turnDuration s - real_of_int (now - turnStartTime s) / 1000))))\<rparr>"
    using assms map_get_Some_pid [OF assms(3)]
    by (auto simp add: handleTurnSubmit_def Let_def broadcast_def)
  show ?thesis
    unfolding eq
    using assms(1,2,3) broadcastToGame_mem [OF map_get_Some_mem [OF assms(3)]]
    by simp
qed

theorem handleTurnSubmit_wrong_keeps_turn_witness:
  "validateWord demo_env ''mets'' (currentCombo demo_second_turn) (usedWords demo_second_turn) = WRONG
   \<and> validateWord demo_env ''Kala'' (currentCombo demo_second_turn) (usedWords demo_second_turn) = ALREADY_USED
   \<and> currentTurnPlayerId (handleTurnSubmit demo_env ''p2'' ''Kala'' 5000 demo_second_turn) = ''p2''
   \<and> players (handleTurnSubmit demo_env ''p2'' ''mets'' 5000 demo_second_turn) = players demo_second_turn
   \<and> (2, MSG_TURN_RESULT ''p2'' ALREADY_USED ''p2'' ''LA'' ''Kala'' (Some 7))
       \<in> set (sent (handleTurnSubmit demo_env ''p2'' ''Kala'' 5000 demo_second_turn))"
proof -
  have g: "phase demo_second_turn = PLAYING" "''p2'' = currentTurnPlayerId demo_second_turn"
    "map_get (players demo_second_turn) ''p2'' = Some (players demo_second_turn ! 1)"
    "state (players demo_second_turn ! 1) = ALIVE"
    by code_simp+
  have w: "validateWord demo_env ''mets'' (currentCombo demo_second_turn) (usedWords demo_second_turn) = WRONG"
    by code_simp
  have u: "validateWord demo_env ''Kala'' (currentCombo demo_second_turn) (usedWords demo_second_turn) = ALREADY_USED"
    by code_simp
  have v: "readyState (ws (players demo_second_turn ! 1)) = OPEN"
    "wsId (ws (players demo_second_turn ! 1)) = 2" "currentCombo demo_second_turn = ''LA''"
    "max 0 (turnDuration demo_second_turn - real_of_int (5000 - turnStartTime demo_second_turn) / 1000) = 7"
    by code_simp+
  note W = handleTurnSubmit_wrong_keeps_turn [OF g w, of 5000]
  note U = handleTurnSubmit_wrong_keeps_turn [OF g u, of 5000]
  from W
  have 1: "players (handleTurnSubmit demo_env ''p2'' ''mets'' 5000 demo_second_turn) = players demo_second_turn"
    by blast
  from U
  have 2: "currentTurnPlayerId (handleTurnSubmit demo_env ''p2'' ''Kala'' 5000 demo_second_turn) = ''p2''"
    by blast
  from U
  have "readyState (ws (players demo_second_turn ! 1)) = OPEN \<longrightarrow>
          (wsId (ws (players demo_second_turn ! 1)),
           MSG_TURN_RESULT ''p2'' ALREADY_USED ''p2'' (currentCombo demo_second_turn) ''Kala''
             (Some (max 0 (turnDuration demo_second_turn
                            - real_of_int (5000 - turnStartTime demo_second_turn) / 1000))))
          \<in> set (sent (handleTurnSubmit demo_env ''p2'' ''Kala'' 5000 demo_second_turn))"
    by blast
  with v
  have 3: "(2, MSG_TURN_RESULT ''p2'' ALREADY_USED ''p2'' ''LA'' ''Kala'' (Some 7))
       \<in> set (sent (handleTurnSubmit demo_env ''p2'' ''Kala'' 5000 demo_second_turn))"
    by simp
  from w u 1 2 3 show ?thesis by simp
qed

text \<open>\<^verbatim>\<open>handleTurnInput\<close> as one equation.\<close>

lemma handleTurnInput_eq:
  "handleTurnInput i input s =
     (if phase s = PLAYING \<and> i = currentTurnPlayerId s
         \<and> (case map_get (players s) i of None \<Rightarrow> False | Some p \<Rightarrow> state p = ALIVE)
      then s\<lparr>players := update_player (\<lambda>p. p\<lparr>currentInput := input\<rparr>) i (players s),
             sent := sent s @ map (\<lambda>p. (wsId (ws p), MSG_TURN_INPUT i input))
                                  (filter (\<lambda>p. readyState (ws p) = OPEN) (players s))\<rparr>
      else s)"
proof -
  have "broadcastToGame (update_player (\<lambda>p. p\<lparr>currentInput := input\<rparr>) i (players s))
          (MSG_TURN_INPUT i input)
        = map (\<lambda>p. (wsId (ws p), MSG_TURN_INPUT i input))
              (filter (\<lambda>p. readyState (ws p) = OPEN) (players s))"
    by (simp add: broadcastToGame_update_player) (simp add: broadcastToGame_def)
  then show ?thesis
    by (auto simp add: handleTurnInput_def broadcast_def split: option.splits)
qed

section \<open>Joining a session\<close>

lemma addPlayer_None: "fst (addPlayer i n w g) = None \<Longrightarrow> snd (addPlayer i n w g) = g"
  by (auto simp add: addPlayer_def Let_def MAX_PLAYERS_def split: if_splits)

lemma addPlayer_Some:
  "phase g = LOBBY \<Longrightarrow> length (players g) < MAX_PLAYERS \<Longrightarrow> fst (addPlayer i n w g) \<noteq> None"
  by (simp add: addPlayer_def Let_def)

text \<open>
  C6, as the code has it. For a registered client, \<^verbatim>\<open>joinGame\<close> fails with 'Game not
  found' exactly when the id names no session; for a session that exists it fails with
  'Game already started' exactly when the phase is not LOBBY (so for PLAYING and for
  GAME_OVER alike), with 'Game is full' exactly when the phase is LOBBY and the session
  holds MAX_PLAYERS players or more, and it succeeds otherwise. Whatever the failure, the
  manager after the call is the manager before it.
\<close>

theorem joinGame_failures:
  "(clients lm (wsId w) \<noteq> None \<longrightarrow>
      (fst (joinGame w gId playerName lm) = Inl GameNotFound \<longleftrightarrow> games lm gId = None)
    \<and> (\<forall>game. games lm gId = Some game \<longrightarrow>
          (fst (joinGame w gId playerName lm) = Inl GameAlreadyStarted \<longleftrightarrow> phase game \<noteq> LOBBY)
        \<and> (fst (joinGame w gId playerName lm) = Inl GameIsFull
              \<longleftrightarrow> phase game = LOBBY \<and> playerCount game \<ge> MAX_PLAYERS)
        \<and> (fst (joinGame w gId playerName lm) = Inr ()
              \<longleftrightarrow> phase game = LOBBY \<and> playerCount game < MAX_PLAYERS)))
   \<and> (\<forall>err. fst (joinGame w gId playerName lm) = Inl err \<longrightarrow> snd (joinGame w gId playerName lm) = lm)"
proof -
  have keep: "lm\<lparr>games := (games lm)(gId \<mapsto> game)\<rparr> = lm" if "games lm gId = Some game" for game
    using that by (simp add: fun_upd_idem)
  have part2: "\<forall>err. fst (joinGame w gId playerName lm) = Inl err
                 \<longrightarrow> snd (joinGame w gId playerName lm) = lm"
  proof (intro allI impI)
    fix err assume f: "fst (joinGame w gId playerName lm) = Inl err"
    show "snd (joinGame w gId playerName lm) = lm"
    proof (cases "clients lm (wsId w)")
      case None
      then show ?thesis by (simp add: joinGame_def)
    next
      case (Some client)
      show ?thesis
      proof (cases "games lm gId")
        case None
        with Some show ?thesis by (simp add: joinGame_def)
      next
        case g: (Some game)
        show ?thesis
        proof (cases "phase game \<noteq> LOBBY \<or> playerCount game \<ge> MAX_PLAYERS")
          case True
          with Some g show ?thesis by (auto simp add: joinGame_def)
        next
          case False
          obtain r game' where a: "addPlayer (playerId client) playerName w game = (r, game')"
            by (cases "addPlayer (playerId client) playerName w game")
          with f Some g False have "r = None"
            by (cases r) (auto simp add: joinGame_def)
          with a addPlayer_None [of "playerId client" playerName w game] have "game' = game" by simp
          with Some g False a \<open>r = None\<close> keep [OF g] show ?thesis
            by (auto simp add: joinGame_def)
        qed
      qed
    qed
  qed
  have part1: "clients lm (wsId w) \<noteq> None \<longrightarrow>
      (fst (joinGame w gId playerName lm) = Inl GameNotFound \<longleftrightarrow> games lm gId = None)
    \<and> (\<forall>game. games lm gId = Some game \<longrightarrow>
          (fst (joinGame w gId playerName lm) = Inl GameAlreadyStarted \<longleftrightarrow> phase game \<noteq> LOBBY)
        \<and> (fst (joinGame w gId playerName lm) = Inl GameIsFull
              \<longleftrightarrow> phase game = LOBBY \<and> playerCount game \<ge> MAX_PLAYERS)
        \<and> (fst (joinGame w gId playerName lm) = Inr ()
              \<longleftrightarrow> phase game = LOBBY \<and> playerCount game < MAX_PLAYERS))"
  proof (intro impI)
    assume "clients lm (wsId w) \<noteq> None"
    then obtain client where c: "clients lm (wsId w) = Some client" by auto
    have ok: "False"
      if "addPlayer (playerId client) playerName w game = (None, g')"
        "phase game = LOBBY" "\<not> MAX_PLAYERS \<le> playerCount game" for game g'
      using that addPlayer_Some [of game "playerId client" playerName w]
      by (simp add: playerCount_def)
    show "(fst (joinGame w gId playerName lm) = Inl GameNotFound \<longleftrightarrow> games lm gId = None)
    \<and> (\<forall>game. games lm gId = Some game \<longrightarrow>
          (fst (joinGame w gId playerName lm) = Inl GameAlreadyStarted \<longleftrightarrow> phase game \<noteq> LOBBY)
        \<and> (fst (joinGame w gId playerName lm) = Inl GameIsFull
              \<longleftrightarrow> phase game = LOBBY \<and> playerCount game \<ge> MAX_PLAYERS)
        \<and> (fst (joinGame w gId playerName lm) = Inr ()
              \<longleftrightarrow> phase game = LOBBY \<and> playerCount game < MAX_PLAYERS))"
      using c
      by (auto simp add: joinGame_def split: option.splits prod.splits dest: ok)
  qed
  from part1 part2 show ?thesis by blast
qed

theorem joinGame_failures_witness:
  "fst (joinGame (open_ws 9) ''zz'' ''Dan'' demo_manager) = Inl GameNotFound
   \<and> fst (joinGame (open_ws 9) ''g3'' ''Dan'' demo_manager) = Inl GameAlreadyStarted
   \<and> snd (joinGame (open_ws 9) ''g3'' ''Dan'' demo_manager) = demo_manager
   \<and> fst (joinGame (open_ws 9) ''g2'' ''Dan'' demo_manager) = Inr ()"
proof -
  have c: "clients demo_manager (wsId (open_ws 9)) \<noteq> None" by code_simp
  have g: "games demo_manager ''zz'' = None" "games demo_manager ''g3'' = Some demo_playing"
    "games demo_manager ''g2'' = Some demo_lobby"
    by (simp_all add: demo_manager_def)
  have ph: "phase demo_playing \<noteq> LOBBY" "phase demo_lobby = LOBBY"
    "playerCount demo_lobby < MAX_PLAYERS"
    by code_simp+
  from joinGame_failures [where lm = demo_manager and w = "open_ws 9" and gId = "''zz''"
                            and playerName = "''Dan''"] c g(1)
  have 1: "fst (joinGame (open_ws 9) ''zz'' ''Dan'' demo_manager) = Inl GameNotFound" by blast
  note T = joinGame_failures [where lm = demo_manager and w = "open_ws 9" and gId = "''g3''"
                            and playerName = "''Dan''"]
  from T c g(2) ph(1)
  have 2: "fst (joinGame (open_ws 9) ''g3'' ''Dan'' demo_manager) = Inl GameAlreadyStarted" by blast
  with T have 3: "snd (joinGame (open_ws 9) ''g3'' ''Dan'' demo_manager) = demo_manager" by blast
  from joinGame_failures [where lm = demo_manager and w = "open_ws 9" and gId = "''g2''"
                            and playerName = "''Dan''"] c g(3) ph(2,3)
  have 4: "fst (joinGame (open_ws 9) ''g2'' ''Dan'' demo_manager) = Inr ()" by blast
  from 1 2 3 4 show ?thesis by blast
qed

text \<open>
  The claim C6 as the specification words it fails on \<open>demo_manager\<close>: the session
  \<^verbatim>\<open>g1\<close> is in phase GAME_OVER and holds two players of at most eight, and the join
  request of a registered client is rejected with 'Game already started'.
\<close>

theorem joinGame_counterexample:
  "phase demo_game_over = GAME_OVER
   \<and> playerCount demo_game_over = 2
   \<and> fst (joinGame (open_ws 9) ''g1'' ''Dan'' demo_manager) = Inl GameAlreadyStarted"
  by code_simp

section \<open>The win check\<close>

lemma countAlive_filter:
  "countAlive ps (n, l) =
     (n + length (filter (\<lambda>p. state p = ALIVE) ps),
      if filter (\<lambda>p. state p = ALIVE) ps = [] then l
      else Some (last (filter (\<lambda>p. state p = ALIVE) ps)))"
  by (induction ps arbitrary: n l) auto

lemma countAlive_alivePlayers:
  "countAlive (players s) (0, None) =
     (length (alivePlayers s),
      if alivePlayers s = [] then None else Some (last (alivePlayers s)))"
  by (simp add: countAlive_filter alivePlayers_def)

lemma phase_endGame: "phase (endGame w s) = GAME_OVER"
  by (simp add: endGame_def Let_def broadcast_def stopTurnTimer_def)

lemma sent_endGame:
  "sent (endGame w s) = sent s @ broadcastToGame (players s) (MSG_GAME_OVER w (failedCombos s))"
  by (simp add: endGame_def Let_def broadcast_def stopTurnTimer_def)

text \<open>
  C2. Player ids come from \<^verbatim>\<open>uuidv4()\<close> and are not empty; for such a session the win
  check does this. With exactly one player and nobody ALIVE it ends the game with winner
  null. With two or more players it ends the game when nobody is ALIVE, with winner null,
  and when exactly one player is ALIVE, with that player's id as winner. In every other
  case it returns false and leaves the session, its phase included, as it was. Ending the
  game sets the phase to GAME_OVER and sends GAME_OVER with the winner to every open socket.
\<close>

theorem checkWinCondition_cases:
  assumes "\<forall>p \<in> set (players s). pid p \<noteq> []"
  shows "(length (players s) = 1 \<and> alivePlayers s = []
            \<longrightarrow> checkWinCondition s = (endGame None s, True))
    \<and> (length (players s) \<ge> 2 \<and> alivePlayers s = []
            \<longrightarrow> checkWinCondition s = (endGame None s, True))
    \<and> (\<forall>p. length (players s) \<ge> 2 \<and> alivePlayers s = [p]
            \<longrightarrow> checkWinCondition s = (endGame (Some (pid p)) s, True))
    \<and> (\<not> (length (players s) = 1 \<and> alivePlayers s = [])
        \<and> \<not> (length (players s) \<ge> 2 \<and> length (alivePlayers s) \<le> 1)
            \<longrightarrow> checkWinCondition s = (s, False))
    \<and> phase (endGame w s) = GAME_OVER
    \<and> sent (endGame w s) = sent s @ broadcastToGame (players s) (MSG_GAME_OVER w (failedCombos s))"
proof -
  have one: "checkWinCondition s = (endGame (Some (pid p)) s, True)"
    if "length (players s) \<ge> 2" "alivePlayers s = [p]" for p
  proof -
    have "p \<in> set (alivePlayers s)" using that(2) by simp
    then have "p \<in> set (players s)" by (simp add: alivePlayers_def)
    with assms have "pid p \<noteq> []" by blast
    with that show ?thesis
      by (simp add: checkWinCondition_def countAlive_alivePlayers)
  qed
  have none1: "checkWinCondition s = (endGame None s, True)"
    if "length (players s) = 1" "alivePlayers s = []"
    using that by (simp add: checkWinCondition_def countAlive_alivePlayers)
  have none2: "checkWinCondition s = (endGame None s, True)"
    if "length (players s) \<ge> 2" "alivePlayers s = []"
    using that by (simp add: checkWinCondition_def countAlive_alivePlayers)
  have other: "checkWinCondition s = (s, False)"
    if "\<not> (length (players s) = 1 \<and> alivePlayers s = [])"
       "\<not> (length (players s) \<ge> 2 \<and> length (alivePlayers s) \<le> 1)"
    using that by (auto simp add: checkWinCondition_def countAlive_alivePlayers)
  from one none1 none2 other phase_endGame [of w s] sent_endGame [of w s]
  show ?thesis by blast
qed

theorem checkWinCondition_cases_witness:
  "alivePlayers demo_one_alive = [players demo_playing ! 0]
   \<and> checkWinCondition demo_one_alive = (endGame (Some ''p1'') demo_one_alive, True)
   \<and> phase (endGame (Some ''p1'') demo_one_alive) = GAME_OVER
   \<and> checkWinCondition demo_playing = (demo_playing, False)"
proof -
  have ids: "\<forall>p \<in> set (players demo_one_alive). pid p \<noteq> []"
    "\<forall>p \<in> set (players demo_playing). pid p \<noteq> []"
    by code_simp+
  have a: "length (players demo_one_alive) \<ge> 2"
    "alivePlayers demo_one_alive = [players demo_playing ! 0]"
    "pid (players demo_playing ! 0) = ''p1''"
    by code_simp+
  have b: "\<not> (length (players demo_playing) = 1 \<and> alivePlayers demo_playing = [])"
    "\<not> (length (players demo_playing) \<ge> 2 \<and> length (alivePlayers demo_playing) \<le> 1)"
    by code_simp+
  from checkWinCondition_cases [OF ids(1), of "Some ''p1''"] a
  have 1: "checkWinCondition demo_one_alive = (endGame (Some ''p1'') demo_one_alive, True)"
    and 2: "phase (endGame (Some ''p1'') demo_one_alive) = GAME_OVER"
    by metis+
  from checkWinCondition_cases [OF ids(2), of None] b
  have 3: "checkWinCondition demo_playing = (demo_playing, False)"
    by blast
  from a(2) 1 2 3 show ?thesis by blast
qed

section \<open>Advancing the turn and timeouts\<close>

lemma stopTurnTimer_eq: "stopTurnTimer s = s\<lparr>tickInterval := False\<rparr>"
  by (cases "tickInterval s") (simp_all add: stopTurnTimer_def)

lemma update_player_pid: "(\<And>p. pid (f p) = pid p) \<Longrightarrow> map pid (update_player f k ps) = map pid ps"
  by (induction ps) auto

lemma map_get_update_player:
  "(\<And>p. pid (f p) = pid p) \<Longrightarrow>
     map_get (update_player f k ps) k' = (if k' = k then map_option f (map_get ps k) else map_get ps k')"
  by (induction ps) auto

lemma update_player_comp:
  "(\<And>p. pid (g p) = pid p) \<Longrightarrow> update_player f k (update_player g k ps) = update_player (\<lambda>p. f (g p)) k ps"
  by (induction ps) auto

lemma update_player_const:
  "map_get ps k = Some q \<Longrightarrow> update_player f k ps = update_player (\<lambda>_. f q) k ps"
  by (induction ps) auto

lemma advance_to_fields:
  "currentTurnPlayerId (advance_to e f k s) = k"
  "combosGenerated (advance_to e f k s) =
     (if f \<or> \<not> roundStartAlive s \<or> k = roundStartPlayerId s then Suc (combosGenerated s) else combosGenerated s)"
  "currentCombo (advance_to e f k s) =
     (if f \<or> \<not> roundStartAlive s \<or> k = roundStartPlayerId s then generateNewCombo e (combosGenerated s) else currentCombo s)"
  "roundStartPlayerId (advance_to e f k s) =
     (if f \<or> \<not> roundStartAlive s \<or> k = roundStartPlayerId s then k else roundStartPlayerId s)"
  "players (advance_to e f k s) = update_player (\<lambda>p. p\<lparr>currentInput := []\<rparr>) k (players s)"
  "failedCombos (advance_to e f k s) = failedCombos s"
  "usedWords (advance_to e f k s) = usedWords s"
  "phase (advance_to e f k s) = phase s"
  "tickInterval (advance_to e f k s) = tickInterval s"
  "sent (advance_to e f k s) = sent s"
  by (auto simp add: advance_to_def Let_def)

lemma advanceToNextPlayer_cases:
  "advanceToNextPlayer e f s = s \<or> (\<exists>k. advanceToNextPlayer e f s = advance_to e f k s)"
  by (auto simp add: advanceToNextPlayer_def Let_def split: option.splits)

lemma advanceToNextPlayer_frame:
  "failedCombos (advanceToNextPlayer e f s) = failedCombos s"
  "usedWords (advanceToNextPlayer e f s) = usedWords s"
  "phase (advanceToNextPlayer e f s) = phase s"
  "tickInterval (advanceToNextPlayer e f s) = tickInterval s"
  "sent (advanceToNextPlayer e f s) = sent s"
  "map pid (players (advanceToNextPlayer e f s)) = map pid (players s)"
  using advanceToNextPlayer_cases [of e f s]
  by (auto simp add: advance_to_fields update_player_pid)

lemma turnFields_advance_to:
  "turnFields s = turnFields t \<Longrightarrow> turnFields (advance_to e f k s) = turnFields (advance_to e f k t)"
  by (simp add: turnFields_def advance_to_fields roundStartAlive_def)

lemma turnFields_advanceToNextPlayer:
  assumes "turnFields s = turnFields t"
  shows "turnFields (advanceToNextPlayer e f s) = turnFields (advanceToNextPlayer e f t)"
proof -
  from assms have eq: "players s = players t" "currentTurnPlayerId s = currentTurnPlayerId t"
    by (simp_all add: turnFields_def)
  show ?thesis
    using assms turnFields_advance_to [OF assms]
    by (simp add: advanceToNextPlayer_def Let_def eq split: option.splits)
qed

lemma endGame_eq:
  "endGame w s = s\<lparr>tickInterval := False, phase := GAME_OVER,
                    sent := sent s @ broadcastToGame (players s) (MSG_GAME_OVER w (failedCombos s))\<rparr>"
  by (simp add: endGame_def Let_def broadcast_def stopTurnTimer_eq)

lemma startTurnTimer_eq:
  "startTurnTimer now s =
     s\<lparr>tickInterval := True, turnStartTime := now, turnTimer := turnDuration s,
       sent := sent s @ broadcastToGame (players s)
                          (MSG_TURN_START (currentTurnPlayerId s) (turnDuration s))\<rparr>"
  by (simp add: startTurnTimer_def Let_def broadcast_def stopTurnTimer_eq)

lemma checkWinCondition_cases2:
  "checkWinCondition s = (s, False) \<or> (\<exists>w. checkWinCondition s = (endGame w s, True))"
  by (auto simp add: checkWinCondition_def split: prod.splits)

lemma turnFields_frame:
  "turnFields (broadcast m s) = turnFields s"
  "turnFields (startTurnTimer now s) = turnFields s"
  "turnFields (endGame w s) = turnFields s"
  "turnFields (stopTurnTimer s) = turnFields s"
  "turnFields (fst (checkWinCondition s)) = turnFields s"
  using checkWinCondition_cases2 [of s]
  by (auto simp add: turnFields_def broadcast_def startTurnTimer_eq endGame_eq stopTurnTimer_eq)

lemma failedCombos_frame:
  "failedCombos (broadcast m s) = failedCombos s"
  "failedCombos (startTurnTimer now s) = failedCombos s"
  "failedCombos (endGame w s) = failedCombos s"
  "failedCombos (stopTurnTimer s) = failedCombos s"
  "failedCombos (fst (checkWinCondition s)) = failedCombos s"
  using checkWinCondition_cases2 [of s]
  by (auto simp add: broadcast_def startTurnTimer_eq endGame_eq stopTurnTimer_eq)

lemma finish_turn:
  "(case checkWinCondition s of (s4, won) \<Rightarrow> if won then s4 else startTurnTimer now s4)
     = (if snd (checkWinCondition s) then fst (checkWinCondition s)
        else startTurnTimer now (fst (checkWinCondition s)))"
  by (simp split: prod.splits)

lemma processTurnResult_TIMEOUT:
  assumes "map_get (players s) k = Some player"
  shows "turnFields (processTurnResult e player TIMEOUT w now s)
         = turnFields (advanceToNextPlayer e False
             (s\<lparr>failedCombos := set_add (failedCombos s) (currentCombo s),
                players := update_player timedOut k (players s)\<rparr>))"
    and "failedCombos (processTurnResult e player TIMEOUT w now s)
         = set_add (failedCombos s) (currentCombo s)"
proof -
  have k: "pid player = k" using assms by (rule map_get_Some_pid)
  note c = update_player_const [OF assms]
  show "turnFields (processTurnResult e player TIMEOUT w now s)
         = turnFields (advanceToNextPlayer e False
             (s\<lparr>failedCombos := set_add (failedCombos s) (currentCombo s),
                players := update_player timedOut k (players s)\<rparr>))"
  proof (cases "lives player - 1 \<le> 0")
    case True
    have upd: "update_player (\<lambda>p. p\<lparr>currentInput := []\<rparr>) k
                 (update_player (\<lambda>p. p\<lparr>state := ELIMINATED\<rparr>) k
                    (update_player (\<lambda>p. p\<lparr>lives := lives p - 1\<rparr>) k (players s)))
               = update_player timedOut k (players s)"
      using True
      by (simp add: update_player_comp c [of timedOut]
            c [of "\<lambda>p. p\<lparr>lives := lives p - 1, state := ELIMINATED, currentInput := []\<rparr>"]
            timedOut_def)
    show ?thesis
      unfolding processTurnResult_def Let_def
      using True
      apply (simp add: finish_turn turnFields_frame k)
      apply (rule turnFields_advanceToNextPlayer)
      apply (simp add: turnFields_def stopTurnTimer_eq broadcast_def upd)
      done
  next
    case False
    have upd: "update_player (\<lambda>p. p\<lparr>currentInput := []\<rparr>) k
                    (update_player (\<lambda>p. p\<lparr>lives := lives p - 1\<rparr>) k (players s))
               = update_player timedOut k (players s)"
      using False
      by (simp add: update_player_comp c [of timedOut]
            c [of "\<lambda>p. p\<lparr>lives := lives p - 1, currentInput := []\<rparr>"]
            timedOut_def)
    show ?thesis
      unfolding processTurnResult_def Let_def
      using False
      apply (simp add: finish_turn turnFields_frame k)
      apply (rule turnFields_advanceToNextPlayer)
      apply (simp add: turnFields_def stopTurnTimer_eq broadcast_def upd)
      done
  qed
  show "failedCombos (processTurnResult e player TIMEOUT w now s)
         = set_add (failedCombos s) (currentCombo s)"
    unfolding processTurnResult_def Let_def
    by (simp add: finish_turn failedCombos_frame advanceToNextPlayer_frame k stopTurnTimer_eq broadcast_def)
qed


lemma advanceToNextPlayer_rotation:
  "(combosGenerated (advanceToNextPlayer e f s) = combosGenerated s
      \<and> currentCombo (advanceToNextPlayer e f s) = currentCombo s)
   \<or> (combosGenerated (advanceToNextPlayer e f s) = Suc (combosGenerated s)
      \<and> currentCombo (advanceToNextPlayer e f s) = generateNewCombo e (combosGenerated s)
      \<and> roundStartPlayerId (advanceToNextPlayer e f s) = currentTurnPlayerId (advanceToNextPlayer e f s))"
  using advanceToNextPlayer_cases [of e f s]
  by (auto simp add: advance_to_fields split: if_splits)

lemma map_get_advanceToNextPlayer:
  assumes "map_get (players s) k = Some q" and "currentInput q = []"
  shows "map_get (players (advanceToNextPlayer e f s)) k = Some q"
proof -
  have "q\<lparr>currentInput := []\<rparr> = q" using assms(2) by simp
  with assms(1) show ?thesis
    using advanceToNextPlayer_cases [of e f s]
    by (auto simp add: advance_to_fields map_get_update_player)
qed

text \<open>
  C1 at a concrete match. In \<open>demo_five_timeouts\<close> the combo is LA and the third player
  holds the turn. Their timeout completes the round: \<open>demo_six_timeouts\<close> has the new
  combo AU, and the first player, with one life left, holds the turn and opens the round.
  The first player times out in turn and is eliminated. The second and third player are
  still ALIVE and have not had a turn at AU, yet the combo is already replaced by ME.
\<close>

lemma demo_round_start_timeout:
  "(let s5 = demo_five_timeouts; s6 = run demo_env [Tick 61000] s5; s7 = tick demo_env 71000 s6 in
      (currentCombo s5, currentTurnPlayerId s5,
       currentCombo s6, currentTurnPlayerId s6, roundStartPlayerId s6,
       map state (players s6), map lives (players s6),
       phase s7, map state (players s7), currentTurnPlayerId s7, currentCombo s7,
       combosGenerated s7 = Suc (combosGenerated s6)))
   = (''LA'', ''p3'', ''AU'', ''p1'', ''p1'', [ALIVE, ALIVE, ALIVE], [1, 1, 1],
      PLAYING, [ELIMINATED, ALIVE, ALIVE], ''p2'', ''ME'', True)"
  by code_simp

theorem timeout_of_round_start_player_rotates:
  "currentCombo demo_five_timeouts = ''LA''
   \<and> currentTurnPlayerId demo_five_timeouts = ''p3''
   \<and> currentCombo demo_six_timeouts = ''AU''
   \<and> currentTurnPlayerId demo_six_timeouts = ''p1''
   \<and> roundStartPlayerId demo_six_timeouts = ''p1''
   \<and> map state (players demo_six_timeouts) = [ALIVE, ALIVE, ALIVE]
   \<and> map lives (players demo_six_timeouts) = [1, 1, 1]
   \<and> phase (tick demo_env 71000 demo_six_timeouts) = PLAYING
   \<and> map state (players (tick demo_env 71000 demo_six_timeouts)) = [ELIMINATED, ALIVE, ALIVE]
   \<and> currentTurnPlayerId (tick demo_env 71000 demo_six_timeouts) = ''p2''
   \<and> currentCombo (tick demo_env 71000 demo_six_timeouts) = ''ME''
   \<and> combosGenerated (tick demo_env 71000 demo_six_timeouts) = Suc (combosGenerated demo_six_timeouts)"
  using demo_round_start_timeout [unfolded Let_def prod.inject simp_thms, folded demo_six_timeouts_def]
  by blast

section \<open>The invariant of the engine\<close>

lemma advance_scan_Some:
  "advance_scan ps i a = Some j \<Longrightarrow> \<exists>q. map_get ps (map pid ps ! j) = Some q \<and> state q = ALIVE"
proof (induction ps i a rule: advance_scan.induct)
  case (1 ps nextIndex attempts)
  from "1.prems" show ?case
    by (subst (asm) advance_scan.simps) (auto split: if_splits option.splits dest: "1.IH")
qed

lemma advance_scan_None:
  "advance_scan ps i a = None \<Longrightarrow> i < length ps \<Longrightarrow> a \<le> length ps \<Longrightarrow> d < length ps - a
     \<Longrightarrow> \<not> alive_at ps ((i + d) mod length ps)"
proof (induction ps i a arbitrary: d rule: advance_scan.induct)
  case (1 ps nextIndex attempts)
  from "1.prems"(4) have lt: "attempts < length ps" by simp
  show ?case
  proof (cases d)
    case 0
    with "1.prems"(1,2) lt show ?thesis
      by (subst (asm) advance_scan.simps) (auto simp add: alive_at_def split: if_splits option.splits)
  next
    case (Suc d')
    have rest: "advance_scan ps ((nextIndex + 1) mod length ps) (attempts + 1) = None"
      using "1.prems"(1) lt
      by (subst (asm) advance_scan.simps) (auto split: if_splits option.splits)
    from lt have pos: "0 < length ps" by (cases ps) simp_all
    have n: "(nextIndex + 1) mod length ps < length ps" using pos by simp
    have "\<not> alive_at ps (((nextIndex + 1) mod length ps + d') mod length ps)"
    proof (cases "map_get ps (map pid ps ! nextIndex)")
      case None
      show ?thesis
        using "1.IH"(1) [OF lt None rest n _ , of d'] "1.prems"(4) Suc lt by simp
    next
      case (Some q)
      have na: "state q \<noteq> ALIVE"
        using "1.prems"(1) lt Some
        by (subst (asm) advance_scan.simps) (auto split: if_splits)
      show ?thesis
        using "1.IH"(2) [OF lt Some na rest n _ , of d'] "1.prems"(4) Suc lt by simp
    qed
    moreover have "((nextIndex + 1) mod length ps + d') mod length ps = (nextIndex + d) mod length ps"
      using Suc by (simp add: mod_add_left_eq)
    ultimately show ?thesis by simp
  qed
qed

lemma advance_scan_None_all:
  assumes "advance_scan ps i 0 = None" and "i < length ps" and "j < length ps"
  shows "\<not> alive_at ps j"
proof -
  let ?n = "length ps"
  let ?d = "(j + ?n - i) mod ?n"
  from assms(2) have pos: "0 < ?n" by (cases ps) simp_all
  have d: "?d < ?n - 0" using pos by simp
  have "(i + ?d) mod ?n = (i + (j + ?n - i)) mod ?n" by (simp add: mod_add_right_eq)
  also have "\<dots> = (j + ?n) mod ?n" using assms(2) by simp
  also have "\<dots> = j" using assms(3) by simp
  finally have "(i + ?d) mod ?n = j" .
  with advance_scan_None [OF assms(1,2) _ d] show ?thesis by simp
qed

lemma map_get_distinct_nth:
  "distinct (map pid ps) \<Longrightarrow> j < length ps \<Longrightarrow> map_get ps (map pid ps ! j) = Some (ps ! j)"
proof (induction ps arbitrary: j)
  case Nil
  then show ?case by simp
next
  case (Cons p ps)
  show ?case
  proof (cases j)
    case 0
    then show ?thesis by simp
  next
    case (Suc j')
    with Cons.prems have "j' < length ps" by simp
    then have "pid (ps ! j') \<in> pid ` set ps" by simp
    with Cons.prems have "pid p \<noteq> pid (ps ! j')" by auto
    with Cons Suc show ?thesis by simp
  qed
qed

lemma advance_scan_None_no_alive:
  assumes "advance_scan ps i 0 = None" and "i < length ps" and "distinct (map pid ps)"
  shows "filter (\<lambda>p. state p = ALIVE) ps = []"
proof -
  have "state (ps ! j) \<noteq> ALIVE" if "j < length ps" for j
    using advance_scan_None_all [OF assms(1,2) that] map_get_distinct_nth [OF assms(3) that]
    by (simp add: alive_at_def)
  then have "\<forall>p \<in> set ps. state p \<noteq> ALIVE" by (metis in_set_conv_nth)
  then show ?thesis by (simp add: filter_empty_conv)
qed


lemma keeps_refl: "keeps p p"
  by (simp add: keeps_def)

lemma keeps_livesOk: "keeps p p' \<Longrightarrow> livesOk p \<Longrightarrow> livesOk p'"
  by (auto simp add: keeps_def livesOk_def)

lemma keeps_all2_refl: "list_all2 keeps ps ps"
  by (simp add: list_all2_refl keeps_refl)

lemma keeps_all2_trans:
  assumes "list_all2 keeps ps qs" and "list_all2 keeps qs rs"
  shows "list_all2 keeps ps rs"
proof -
  have "keeps a b \<Longrightarrow> keeps b c \<Longrightarrow> keeps a c" for a b c
    by (auto simp add: keeps_def)
  from list_all2_trans [of keeps keeps keeps, OF this assms] show ?thesis .
qed

lemma keeps_all2_pid: "list_all2 keeps ps ps' \<Longrightarrow> map pid ps' = map pid ps"
  by (induction rule: list_all2_induct) (auto simp add: keeps_def)

lemma keeps_all2_livesOk: "list_all2 keeps ps ps' \<Longrightarrow> list_all livesOk ps \<Longrightarrow> list_all livesOk ps'"
  by (induction rule: list_all2_induct) (auto intro: keeps_livesOk)

lemma keeps_all2_map_get:
  "list_all2 keeps ps ps' \<Longrightarrow>
     (case map_get ps' k of None \<Rightarrow> map_get ps k = None
      | Some p' \<Rightarrow> (\<exists>p. map_get ps k = Some p \<and> keeps p p'))"
  by (induction rule: list_all2_induct) (auto simp add: keeps_def split: option.splits)

lemma keeps_all2_update_player:
  "(\<And>p. keeps p (f p)) \<Longrightarrow> list_all2 keeps ps (update_player f k ps)"
  by (induction ps) (auto simp add: keeps_all2_refl keeps_refl)

lemma keeps_all2_alive:
  "list_all2 keeps ps ps' \<Longrightarrow> filter (\<lambda>p. state p = ALIVE) ps = []
     \<Longrightarrow> filter (\<lambda>p. state p = ALIVE) ps' = []"
  by (induction rule: list_all2_induct) (auto simp add: keeps_def split: if_splits)

lemma turnOk_alive:
  assumes "list_all livesOk (players s)"
    and "map_get (players s) (currentTurnPlayerId s) = Some q" and "state q = ALIVE"
  shows "turnOk s"
proof -
  from assms(2) have "q \<in> set (players s)" by (rule map_get_Some_mem)
  with assms(1) have "livesOk q" by (simp add: list_all_iff)
  with assms(2,3) show ?thesis by (simp add: turnOk_def livesOk_def)
qed

lemma turnOk_keeps:
  assumes "list_all2 keeps (players s) (players s')"
    and "currentTurnPlayerId s' = currentTurnPlayerId s" and "turnOk s"
  shows "turnOk s'"
  using keeps_all2_map_get [OF assms(1), of "currentTurnPlayerId s"] assms(2,3)
  by (auto simp add: turnOk_def keeps_def split: option.splits)

lemma session_inv_keeps:
  assumes "session_inv s" and "list_all2 keeps (players s) (players s')"
    and "tickInterval s' \<longrightarrow> tickInterval s \<and> currentTurnPlayerId s' = currentTurnPlayerId s"
  shows "session_inv s'"
  using assms keeps_all2_pid [OF assms(2)] keeps_all2_livesOk [OF assms(2)]
        turnOk_keeps [OF assms(2)]
  by (auto simp add: session_inv_def)

lemma keeps_advance_to: "list_all2 keeps (players s) (players (advance_to e f k s))"
  by (simp add: advance_to_fields keeps_all2_update_player keeps_def)

lemma keeps_advanceToNextPlayer:
  "list_all2 keeps (players s) (players (advanceToNextPlayer e f s))"
  using advanceToNextPlayer_cases [of e f s]
  by (auto simp add: keeps_advance_to keeps_all2_refl)

lemma advanceToNextPlayer_outcome:
  "(\<exists>q. map_get (players (advanceToNextPlayer e f s))
            (currentTurnPlayerId (advanceToNextPlayer e f s)) = Some q \<and> state q = ALIVE)
   \<or> (advanceToNextPlayer e f s = s
       \<and> (distinct (map pid (players s)) \<longrightarrow> alivePlayers s = []))"
proof (cases "players s = []")
  case True
  then show ?thesis by (simp add: advanceToNextPlayer_def alivePlayers_def)
next
  case False
  let ?n = "length (players s)"
  let ?i = "nat ((indexOf (map pid (players s)) (currentTurnPlayerId s) + 1) mod int ?n)"
  from False have pos: "0 < ?n" by simp
  have i: "?i < ?n" using pos by (simp add: nat_less_iff)
  show ?thesis
  proof (cases "advance_scan (players s) ?i 0")
    case None
    with False advance_scan_None_no_alive [OF None i]
    show ?thesis by (simp add: advanceToNextPlayer_def Let_def alivePlayers_def)
  next
    case (Some j)
    from advance_scan_Some [OF Some] obtain q
      where q: "map_get (players s) (map pid (players s) ! j) = Some q" "state q = ALIVE"
      by blast
    have "pid (q\<lparr>currentInput := []\<rparr>) = pid q" by simp
    from False Some q have
      "map_get (players (advanceToNextPlayer e f s))
            (currentTurnPlayerId (advanceToNextPlayer e f s)) = Some (q\<lparr>currentInput := []\<rparr>)"
      by (simp add: advanceToNextPlayer_def Let_def advance_to_fields map_get_update_player)
    then show ?thesis using q(2) by simp
  qed
qed


lemma snd_checkWinCondition:
  "snd (checkWinCondition s)
     = (length (players s) = 1 \<and> alivePlayers s = []
        \<or> length (players s) > 1 \<and> length (alivePlayers s) \<le> 1)"
  by (auto simp add: checkWinCondition_def countAlive_alivePlayers)

lemma checkWinCondition_players:
  "players s = players t \<Longrightarrow> snd (checkWinCondition s) = snd (checkWinCondition t)"
  by (simp add: snd_checkWinCondition alivePlayers_def)

lemma checkWinCondition_no_alive:
  "alivePlayers s = [] \<Longrightarrow> players s \<noteq> [] \<Longrightarrow> snd (checkWinCondition s)"
proof -
  assume a: "alivePlayers s = []" and n: "players s \<noteq> []"
  from n have "length (players s) = 1 \<or> length (players s) > 1"
    by (cases "players s") auto
  with a show ?thesis
    by (auto simp add: checkWinCondition_def countAlive_alivePlayers)
qed

lemma tickInterval_checkWinCondition:
  "tickInterval (fst (checkWinCondition s)) = (tickInterval s \<and> \<not> snd (checkWinCondition s))"
  using checkWinCondition_cases2 [of s] by (auto simp add: endGame_eq)

lemma finish_turn_fields:
  "tickInterval (if snd (checkWinCondition s) then fst (checkWinCondition s)
                 else startTurnTimer now (fst (checkWinCondition s)))
     = (\<not> snd (checkWinCondition s))"
  "players (if snd (checkWinCondition s) then fst (checkWinCondition s)
                 else startTurnTimer now (fst (checkWinCondition s))) = players s"
  "currentTurnPlayerId (if snd (checkWinCondition s) then fst (checkWinCondition s)
                 else startTurnTimer now (fst (checkWinCondition s))) = currentTurnPlayerId s"
  using checkWinCondition_cases2 [of s]
  by (auto simp add: endGame_eq startTurnTimer_eq)

lemma processTurnResult_TIMEOUT_timer:
  assumes "map_get (players s) k = Some player"
  shows "tickInterval (processTurnResult e player TIMEOUT w now s)
         = (\<not> snd (checkWinCondition (advanceToNextPlayer e False
             (s\<lparr>failedCombos := set_add (failedCombos s) (currentCombo s),
                players := update_player timedOut k (players s)\<rparr>))))"
proof -
  let ?t = "advanceToNextPlayer e False
             (s\<lparr>failedCombos := set_add (failedCombos s) (currentCombo s),
                players := update_player timedOut k (players s)\<rparr>)"
  have tf: "turnFields (processTurnResult e player TIMEOUT w now s) = turnFields ?t"
    by (rule processTurnResult_TIMEOUT(1) [OF assms])
  have "\<exists>s3. processTurnResult e player TIMEOUT w now s
            = (if snd (checkWinCondition s3) then fst (checkWinCondition s3)
               else startTurnTimer now (fst (checkWinCondition s3)))"
    unfolding processTurnResult_def Let_def
    by (simp add: finish_turn split: prod.splits) blast
  then obtain s3 where r: "processTurnResult e player TIMEOUT w now s
            = (if snd (checkWinCondition s3) then fst (checkWinCondition s3)
               else startTurnTimer now (fst (checkWinCondition s3)))"
    by blast
  have "players s3 = players (processTurnResult e player TIMEOUT w now s)"
    unfolding r by (simp only: finish_turn_fields)
  with tf have "players s3 = players ?t" by (simp add: turnFields_def)
  then have eq: "snd (checkWinCondition s3) = snd (checkWinCondition ?t)"
    by (rule checkWinCondition_players)
  have "tickInterval (processTurnResult e player TIMEOUT w now s) = (\<not> snd (checkWinCondition s3))"
    unfolding r by (simp only: finish_turn_fields)
  with eq show ?thesis by simp
qed


lemma processTurnResult_form:
  "\<exists>s3. processTurnResult e player r w now s
            = (if snd (checkWinCondition s3) then fst (checkWinCondition s3)
               else startTurnTimer now (fst (checkWinCondition s3)))"
  unfolding processTurnResult_def Let_def
  by (simp add: finish_turn split: prod.splits) blast

lemma processTurnResult_timer:
  "tickInterval (processTurnResult e player r w now s)
     = (\<not> snd (checkWinCondition (processTurnResult e player r w now s)))"
proof -
  from processTurnResult_form [of e player r w now s]
  obtain s3 where r: "processTurnResult e player r w now s
            = (if snd (checkWinCondition s3) then fst (checkWinCondition s3)
               else startTurnTimer now (fst (checkWinCondition s3)))"
    by blast
  have "players (processTurnResult e player r w now s) = players s3"
    unfolding r by (simp only: finish_turn_fields)
  then have eq: "snd (checkWinCondition (processTurnResult e player r w now s))
                  = snd (checkWinCondition s3)"
    by (rule checkWinCondition_players)
  have "tickInterval (processTurnResult e player r w now s) = (\<not> snd (checkWinCondition s3))"
    unfolding r by (simp only: finish_turn_fields)
  with eq show ?thesis by simp
qed

lemma usedWords_frame:
  "usedWords (broadcast m s) = usedWords s"
  "usedWords (startTurnTimer now s) = usedWords s"
  "usedWords (endGame w s) = usedWords s"
  "usedWords (stopTurnTimer s) = usedWords s"
  "usedWords (fst (checkWinCondition s)) = usedWords s"
  using checkWinCondition_cases2 [of s]
  by (auto simp add: broadcast_def startTurnTimer_eq endGame_eq stopTurnTimer_eq)

lemma processTurnResult_CORRECT:
  assumes "map_get (players s) k = Some player"
  shows "turnFields (processTurnResult e player CORRECT w now s)
         = turnFields (advanceToNextPlayer e True
             (s\<lparr>players := update_player (\<lambda>p. p\<lparr>score := score p + 1, currentInput := []\<rparr>)
                                        k (players s)\<rparr>))"
    and "usedWords (processTurnResult e player CORRECT w now s)
         = insert (toUpperCase e w) (usedWords s)"
proof -
  have k: "pid player = k" using assms by (rule map_get_Some_pid)
  show "turnFields (processTurnResult e player CORRECT w now s)
         = turnFields (advanceToNextPlayer e True
             (s\<lparr>players := update_player (\<lambda>p. p\<lparr>score := score p + 1, currentInput := []\<rparr>)
                                        k (players s)\<rparr>))"
    unfolding processTurnResult_def Let_def
    apply (simp add: finish_turn turnFields_frame k)
    apply (rule turnFields_advanceToNextPlayer)
    apply (simp add: turnFields_def stopTurnTimer_eq update_player_comp)
    done
  show "usedWords (processTurnResult e player CORRECT w now s)
         = insert (toUpperCase e w) (usedWords s)"
    unfolding processTurnResult_def Let_def
    by (simp add: finish_turn usedWords_frame advanceToNextPlayer_frame stopTurnTimer_eq)
qed

lemma processTurnResult_TIMEOUT_usedWords:
  "usedWords (processTurnResult e player TIMEOUT w now s) = usedWords s"
  unfolding processTurnResult_def Let_def
  by (simp add: finish_turn usedWords_frame advanceToNextPlayer_frame stopTurnTimer_eq broadcast_def)

lemma list_all_update_player:
  "list_all P ps \<Longrightarrow> map_get ps k = Some q \<Longrightarrow> P (f q) \<Longrightarrow> list_all P (update_player f k ps)"
  by (induction ps) (auto split: if_splits)

lemma session_inv_finish:
  assumes tf: "turnFields X = turnFields (advanceToNextPlayer e f mid)"
    and ti: "tickInterval X = (\<not> snd (checkWinCondition X))"
    and d: "distinct (map pid (players mid))" and l: "list_all livesOk (players mid)"
    and n: "players mid \<noteq> []"
  shows "session_inv X"
proof -
  let ?t = "advanceToNextPlayer e f mid"
  from tf have p: "players X = players ?t" and c: "currentTurnPlayerId X = currentTurnPlayerId ?t"
    by (simp_all add: turnFields_def)
  have kp: "list_all2 keeps (players mid) (players ?t)" by (rule keeps_advanceToNextPlayer)
  have d': "distinct (map pid (players X))" using d keeps_all2_pid [OF kp] p by simp
  have l': "list_all livesOk (players X)" using keeps_all2_livesOk [OF kp l] p by simp
  have "turnOk X" if run: "tickInterval X"
  proof -
    from advanceToNextPlayer_outcome [of e f mid]
    show ?thesis
    proof
      assume "\<exists>q. map_get (players ?t) (currentTurnPlayerId ?t) = Some q \<and> state q = ALIVE"
      then obtain q where "map_get (players X) (currentTurnPlayerId X) = Some q" "state q = ALIVE"
        using p c by auto
      with l' show ?thesis by (rule turnOk_alive)
    next
      assume b: "?t = mid \<and> (distinct (map pid (players mid)) \<longrightarrow> alivePlayers mid = [])"
      with d p have "alivePlayers X = []" "players X \<noteq> []" using n
        by (simp_all add: alivePlayers_def)
      then have "snd (checkWinCondition X)" by (rule checkWinCondition_no_alive)
      with ti run show ?thesis by simp
    qed
  qed
  with d' l' show ?thesis by (simp add: session_inv_def)
qed

lemma session_inv_processTurnResult_TIMEOUT:
  assumes "session_inv s" and "tickInterval s"
    and g: "map_get (players s) (currentTurnPlayerId s) = Some player"
  shows "session_inv (processTurnResult e player TIMEOUT w now (stopTurnTimer s))"
proof -
  let ?s0 = "stopTurnTimer s"
  let ?k = "currentTurnPlayerId s"
  let ?mid = "?s0\<lparr>failedCombos := set_add (failedCombos ?s0) (currentCombo ?s0),
                players := update_player timedOut ?k (players ?s0)\<rparr>"
  have g0: "map_get (players ?s0) ?k = Some player" using g by (simp add: stopTurnTimer_eq)
  from assms have "1 \<le> lives player" by (simp add: session_inv_def turnOk_def)
  then have ok: "livesOk (timedOut player)" by (auto simp add: livesOk_def timedOut_def)
  have pt: "pid (timedOut p) = pid p" for p by (simp add: timedOut_def)
  have d: "distinct (map pid (players ?mid))"
    using assms(1) by (simp add: session_inv_def stopTurnTimer_eq update_player_pid [of timedOut, OF pt])
  have l: "list_all livesOk (players ?mid)"
    using assms(1) list_all_update_player [of livesOk "players s" ?k player timedOut] g ok
    by (simp add: session_inv_def stopTurnTimer_eq)
  have n: "players ?mid \<noteq> []"
    using g by (cases "players s") (simp_all add: stopTurnTimer_eq)
  show ?thesis
    by (rule session_inv_finish [OF processTurnResult_TIMEOUT(1) [OF g0] processTurnResult_timer d l n])
qed

lemma session_inv_processTurnResult_CORRECT:
  assumes "session_inv s" and g: "map_get (players s) k = Some player"
  shows "session_inv (processTurnResult e player CORRECT w now s)"
proof -
  let ?f = "\<lambda>p. p\<lparr>score := score p + 1, currentInput := []\<rparr>"
  let ?mid = "s\<lparr>players := update_player ?f k (players s)\<rparr>"
  have kp: "list_all2 keeps (players s) (players ?mid)"
    by (simp add: keeps_all2_update_player keeps_def)
  have d: "distinct (map pid (players ?mid))"
    using assms(1) keeps_all2_pid [OF kp] by (simp add: session_inv_def)
  have l: "list_all livesOk (players ?mid)"
    using assms(1) keeps_all2_livesOk [OF kp] by (simp add: session_inv_def)
  have n: "players ?mid \<noteq> []"
    using g by (cases "players s") simp_all
  show ?thesis
    by (rule session_inv_finish [OF processTurnResult_CORRECT(1) [OF g] processTurnResult_timer d l n])
qed


lemma validateWord_never_TIMEOUT: "validateWord e w c u \<noteq> TIMEOUT"
  by (simp add: validateWord_def Let_def)

lemma session_inv_same:
  assumes "session_inv s" and "players s' = players s"
    and "currentTurnPlayerId s' = currentTurnPlayerId s" and "tickInterval s' \<longrightarrow> tickInterval s"
  shows "session_inv s'"
  using assms by (auto simp add: session_inv_def turnOk_def)

lemma session_inv_broadcast: "session_inv s \<Longrightarrow> session_inv (broadcast m s)"
  by (erule session_inv_same) (simp_all add: broadcast_def)

lemma session_inv_stopTurnTimer: "session_inv s \<Longrightarrow> session_inv (stopTurnTimer s)"
  by (erule session_inv_same) (simp_all add: stopTurnTimer_eq)

lemma session_inv_checkWinCondition: "session_inv s \<Longrightarrow> session_inv (fst (checkWinCondition s))"
  using checkWinCondition_cases2 [of s]
  by (auto elim!: session_inv_same simp add: endGame_eq)

lemma session_inv_advanceToNextPlayer:
  assumes "session_inv s"
  shows "session_inv (advanceToNextPlayer e f s)"
proof -
  let ?t = "advanceToNextPlayer e f s"
  have kp: "list_all2 keeps (players s) (players ?t)" by (rule keeps_advanceToNextPlayer)
  have d: "distinct (map pid (players ?t))"
    using assms keeps_all2_pid [OF kp] by (simp add: session_inv_def)
  have l: "list_all livesOk (players ?t)"
    using assms keeps_all2_livesOk [OF kp] by (simp add: session_inv_def)
  have "turnOk ?t" if "tickInterval ?t"
    using advanceToNextPlayer_outcome [of e f s] that assms l
    by (auto simp add: session_inv_def advanceToNextPlayer_frame intro: turnOk_alive)
  with d l show ?thesis by (simp add: session_inv_def)
qed

lemma map_get_map_delete:
  "map_get (map_delete ps k) c = (if c = k then None else map_get ps c)"
  by (induction ps) (auto simp add: map_delete_def)

lemma map_get_map_set:
  "map_get (map_set ps p) c = (if c = pid p then Some p else map_get ps c)"
  by (induction ps) auto

lemma set_map_set: "set (map_set ps p) \<subseteq> insert p (set ps)"
  by (induction ps) auto

lemma pids_map_set: "pid ` set (map_set ps p) = insert (pid p) (pid ` set ps)"
  by (induction ps) auto

lemma distinct_map_set: "distinct (map pid ps) \<Longrightarrow> distinct (map pid (map_set ps p))"
proof (induction ps)
  case Nil
  then show ?case by simp
next
  case (Cons q qs)
  then show ?case by (auto simp add: pids_map_set)
qed

lemma map_get_distinct_mem:
  "distinct (map pid ps) \<Longrightarrow> p \<in> set ps \<Longrightarrow> map_get ps (pid p) = Some p"
  by (induction ps) (auto simp add: rev_image_eqI)

lemma session_inv_addPlayer:
  assumes "session_inv s"
  shows "session_inv (snd (addPlayer i n w s))"
proof (cases "length (players s) \<ge> MAX_PLAYERS \<or> phase s \<noteq> LOBBY")
  case True
  with assms show ?thesis by (auto simp add: addPlayer_def)
next
  case False
  let ?p = "createPlayer i n w (length (players s) = 0)"
  have ok: "livesOk ?p" by (simp add: livesOk_def createPlayer_def DEFAULT_LIVES_def)
  have pl: "players (snd (addPlayer i n w s)) = map_set (players s) ?p"
    and cu: "currentTurnPlayerId (snd (addPlayer i n w s)) = currentTurnPlayerId s"
    and ti: "tickInterval (snd (addPlayer i n w s)) = tickInterval s"
    using False by (simp_all add: addPlayer_def Let_def)
  have l: "list_all livesOk (map_set (players s) ?p)"
    using assms ok set_map_set [of "players s" ?p]
    by (auto simp add: session_inv_def list_all_iff)
  have t: "turnOk (snd (addPlayer i n w s))" if "turnOk s"
    using that by (simp add: turnOk_def pl cu map_get_map_set createPlayer_def DEFAULT_LIVES_def)
  from assms l t show ?thesis
    by (simp add: session_inv_def pl ti distinct_map_set)
qed

lemma session_inv_removePlayer:
  assumes "session_inv s"
  shows "session_inv (removePlayer e k s)"
proof (cases "map_get (players s) k")
  case None
  with assms show ?thesis by (simp add: removePlayer_def)
next
  case (Some player)
  let ?s1 = "s\<lparr>players := map_delete (players s) k\<rparr>"
  let ?s2 = "if isHost player \<and> length (players ?s1) > 0 then
               (case players ?s1 of
                  [] \<Rightarrow> ?s1
                | newHost # rest \<Rightarrow>
                    ?s1\<lparr>players := newHost\<lparr>isHost := True\<rparr> # rest, hostId := pid newHost\<rparr>)
             else ?s1"
  have "distinct (map pid (map_delete (players s) k))" "list_all livesOk (map_delete (players s) k)"
    using assms by (auto simp add: session_inv_def map_delete_def distinct_map_filter list_all_iff)
  then have i1: "session_inv ?s1"
    using assms
    by (auto simp add: session_inv_def turnOk_def map_get_map_delete)
  have kp: "list_all2 keeps (players ?s1) (players ?s2)"
    by (cases "players ?s1") (auto simp add: keeps_all2_refl keeps_def)
  have i2: "session_inv ?s2"
    by (rule session_inv_keeps [OF i1 kp]) (simp split: list.splits)
  let ?s3 = "if phase ?s2 = PLAYING then
               fst (checkWinCondition (if currentTurnPlayerId ?s2 = k
                                       then advanceToNextPlayer e False ?s2 else ?s2))
             else ?s2"
  have i3: "session_inv ?s3"
    using i2 by (simp add: session_inv_checkWinCondition session_inv_advanceToNextPlayer)
  have "removePlayer e k s = broadcastPlayerList ?s3"
    using Some by (simp add: removePlayer_def Let_def)
  with i3 show ?thesis
    by (simp add: broadcastPlayerList_def session_inv_broadcast)
qed

lemma session_inv_setPlayerReady:
  assumes "session_inv s"
  shows "session_inv (setPlayerReady k r s)"
proof (cases "map_get (players s) k")
  case None
  with assms show ?thesis by (simp add: setPlayerReady_def)
next
  case (Some player)
  let ?s1 = "s\<lparr>players := update_player (\<lambda>p. p\<lparr>state := (if r then READY else CONNECTED)\<rparr>)
                                          k (players s)\<rparr>"
  have "session_inv ?s1"
    by (rule session_inv_keeps [OF assms]) (simp_all add: keeps_all2_update_player keeps_def)
  with Some show ?thesis
    by (simp add: setPlayerReady_def broadcastPlayerList_def session_inv_broadcast)
qed

lemma session_inv_handleTurnInput:
  assumes "session_inv s"
  shows "session_inv (handleTurnInput k t s)"
proof -
  have "session_inv (s\<lparr>players := update_player (\<lambda>p. p\<lparr>currentInput := t\<rparr>) k' (players s)\<rparr>)"
    for k'
    by (rule session_inv_keeps [OF assms]) (simp_all add: keeps_all2_update_player keeps_def)
  with assms show ?thesis
    by (simp add: handleTurnInput_def session_inv_broadcast split: option.splits)
qed

lemma session_inv_handleTurnSubmit:
  assumes "session_inv s"
  shows "session_inv (handleTurnSubmit e k w now s)"
proof -
  have "validateWord e w (currentCombo s) (usedWords s) = CORRECT"
    if "validateWord e w (currentCombo s) (usedWords s) \<noteq> WRONG"
       "validateWord e w (currentCombo s) (usedWords s) \<noteq> ALREADY_USED"
    using that validateWord_never_TIMEOUT [of e w "currentCombo s" "usedWords s"]
    by (cases "validateWord e w (currentCombo s) (usedWords s)") simp_all
  with assms show ?thesis
    by (auto simp add: handleTurnSubmit_def Let_def session_inv_broadcast
                       session_inv_processTurnResult_CORRECT split: option.splits)
qed

lemma session_inv_tick:
  assumes "session_inv s"
  shows "session_inv (tick e now s)"
proof (cases "tickInterval s")
  case False
  with assms show ?thesis by (simp add: tick_def)
next
  case True
  let ?s1 = "s\<lparr>turnTimer := turnDuration s - real_of_int (now - turnStartTime s) / 1000\<rparr>"
  have i1: "session_inv ?s1" by (rule session_inv_same [OF assms]) simp_all
  have "session_inv (handleTimeout e now ?s1)"
  proof (cases "map_get (players ?s1) (currentTurnPlayerId ?s1)")
    case None
    then show ?thesis
      using session_inv_stopTurnTimer [OF i1]
      by (simp add: handleTimeout_def Let_def stopTurnTimer_eq)
  next
    case (Some player)
    have "handleTimeout e now ?s1 = processTurnResult e player TIMEOUT [] now (stopTurnTimer ?s1)"
      using Some by (simp add: handleTimeout_def Let_def stopTurnTimer_eq)
    moreover have "session_inv (processTurnResult e player TIMEOUT [] now (stopTurnTimer ?s1))"
      by (rule session_inv_processTurnResult_TIMEOUT [OF i1 _ Some]) (simp add: True)
    ultimately show ?thesis by simp
  qed
  with i1 True show ?thesis by (simp add: tick_def Let_def)
qed

lemma session_inv_returnToLobby:
  assumes "session_inv s"
  shows "session_inv (returnToLobby s)"
proof -
  have pl: "players (returnToLobby s) = map resetPlayer (players s)"
    and ti: "\<not> tickInterval (returnToLobby s)"
    by (simp_all add: returnToLobby_def Let_def broadcastPlayerList_def broadcast_def
                      stopTurnTimer_eq)
  have d: "distinct (map pid (map resetPlayer (players s)))"
    using assms by (simp add: session_inv_def comp_def resetPlayer_def)
  have l: "list_all livesOk (map resetPlayer (players s))"
    by (simp add: list_all_iff resetPlayer_def livesOk_def DEFAULT_LIVES_def)
  from d l ti show ?thesis by (simp add: session_inv_def pl)
qed

lemma session_inv_setComboChangePerRound:
  "session_inv s \<Longrightarrow> session_inv (setComboChangePerRound b s)"
  by (erule session_inv_same) (simp_all add: setComboChangePerRound_def)

lemma readyCount_pos: "0 < readyCount ps \<Longrightarrow> \<exists>p \<in> set ps. state p = READY"
  by (induction ps) (auto split: if_splits)

lemma session_inv_startGame:
  assumes "session_inv s"
  shows "session_inv (fst (startGame e now s))"
proof (cases "canStartGame s")
  case False
  with assms show ?thesis by (simp add: startGame_def)
next
  case True
  let ?ps = "map makeAlive (players s)"
  have pm: "pid (makeAlive p) = pid p" for p by (simp add: makeAlive_def)
  have lm: "livesOk p \<Longrightarrow> livesOk (makeAlive p)" for p
    by (simp add: makeAlive_def livesOk_def DEFAULT_LIVES_def)
  have d: "distinct (map pid ?ps)" using assms pm by (simp add: session_inv_def comp_def)
  have l: "list_all livesOk ?ps" using assms lm by (auto simp add: session_inv_def list_all_iff)
  from True have "0 < readyCount (players s)" by (simp add: canStartGame_def MIN_PLAYERS_def)
  then obtain p where "p \<in> set (players s)" "state p = READY" using readyCount_pos by blast
  then have "makeAlive p \<in> set ?ps" "state (makeAlive p) = ALIVE" by (simp_all add: makeAlive_def)
  then have "find (\<lambda>p. state p = ALIVE) ?ps \<noteq> None" by (auto simp add: find_None_iff)
  then obtain q where q: "find (\<lambda>p. state p = ALIVE) ?ps = Some q" by blast
  then have qa: "state q = ALIVE" and qm: "q \<in> set ?ps"
    by (auto simp add: find_Some_iff)
  have pl: "players (fst (startGame e now s)) = ?ps"
    using True players_startGame by simp
  have cu: "currentTurnPlayerId (fst (startGame e now s)) = pid q"
    using True q
    by (simp add: startGame_def Let_def startTurnTimer_eq broadcast_def)
  have "turnOk (fst (startGame e now s))"
    by (rule turnOk_alive [OF _ _ qa]) (simp_all add: pl cu l map_get_distinct_mem [OF d qm])
  with d l show ?thesis by (simp add: session_inv_def pl)
qed

lemma session_inv_step: "session_inv s \<Longrightarrow> session_inv (step e ev s)"
  by (cases ev)
     (simp_all add: session_inv_addPlayer session_inv_removePlayer session_inv_setPlayerReady
        session_inv_startGame session_inv_handleTurnInput session_inv_handleTurnSubmit
        session_inv_tick session_inv_returnToLobby session_inv_stopTurnTimer cleanup_def
        session_inv_setComboChangePerRound)

lemma session_inv_run: "session_inv s \<Longrightarrow> session_inv (run e evs s)"
  by (induction evs arbitrary: s) (simp_all add: session_inv_step)

lemma session_inv_new: "session_inv (newGameSession i n h)"
  by (simp add: session_inv_def newGameSession_def)


lemma run_append: "run e (evs @ evs') s = run e evs' (run e evs s)"
  by (induction evs arbitrary: s) simp_all

text \<open>
  The invariant holds in every session reached from a new session by any sequence of
  engine operations and timer callbacks: no player has negative lives and every ALIVE
  player has at least one life.
\<close>

theorem alive_players_have_lives:
  "\<forall>p \<in> set (players (run e evs (newGameSession gi gn h))).
      0 \<le> lives p \<and> (state p = ALIVE \<longrightarrow> 1 \<le> lives p)"
proof -
  have "session_inv (run e evs (newGameSession gi gn h))"
    by (rule session_inv_run [OF session_inv_new])
  then show ?thesis by (simp add: session_inv_def list_all_iff livesOk_def)
qed

lemma demo_six_timeouts_run:
  "demo_six_timeouts =
     run demo_env
       ([AddPlayer ''p1'' ''Ann'' (open_ws 1), AddPlayer ''p2'' ''Bob'' (open_ws 2),
         AddPlayer ''p3'' ''Cid'' (open_ws 3),
         SetPlayerReady ''p1'' True, SetPlayerReady ''p2'' True]
        @ [SetPlayerReady ''p3'' True, StartGame 1000]
        @ [Tick 11000, Tick 21000, Tick 31000, Tick 41000, Tick 51000]
        @ [Tick 61000])
       (newGameSession ''g1'' ''Game'' ''p1'')"
  by (simp only: run_append demo_six_timeouts_def demo_five_timeouts_def
                 demo_three_started_def demo_lobby_def)

theorem alive_players_have_lives_witness:
  "state (players demo_six_timeouts ! 0) = ALIVE \<and> 1 \<le> lives (players demo_six_timeouts ! 0)"
proof -
  have v: "(let ps = players demo_six_timeouts in (0 < length ps, state (ps ! 0))) = (True, ALIVE)"
    by code_simp
  then have a: "players demo_six_timeouts ! 0 \<in> set (players demo_six_timeouts)"
    and b: "state (players demo_six_timeouts ! 0) = ALIVE"
    by (simp_all add: Let_def)
  have "\<forall>p \<in> set (players demo_six_timeouts).
          0 \<le> lives p \<and> (state p = ALIVE \<longrightarrow> 1 \<le> lives p)"
    unfolding demo_six_timeouts_run by (rule alive_players_have_lives)
  with a b show ?thesis by blast
qed

section \<open>The words used in a match\<close>

lemma usedWords_startGame: "snd (startGame e now s) \<Longrightarrow> usedWords (fst (startGame e now s)) = {}"
  by (simp add: startGame_def Let_def startTurnTimer_eq broadcast_def split: if_splits option.splits)

lemma usedWords_startGame_fail: "\<not> canStartGame s \<Longrightarrow> fst (startGame e now s) = s"
  by (simp add: startGame_def)

lemma usedWords_returnToLobby: "usedWords (returnToLobby s) = {}"
  by (simp add: returnToLobby_def Let_def broadcastPlayerList_def broadcast_def stopTurnTimer_eq)

lemma usedWords_addPlayer: "usedWords (snd (addPlayer i n w s)) = usedWords s"
  by (simp add: addPlayer_def Let_def)

lemma usedWords_removePlayer: "usedWords (removePlayer e k s) = usedWords s"
  by (simp add: removePlayer_def Let_def broadcastPlayerList_def usedWords_frame
                advanceToNextPlayer_frame split: option.splits list.splits)

lemma usedWords_setPlayerReady: "usedWords (setPlayerReady k r s) = usedWords s"
  by (simp add: setPlayerReady_def broadcastPlayerList_def broadcast_def split: option.splits)

lemma usedWords_handleTurnInput: "usedWords (handleTurnInput k t s) = usedWords s"
  by (simp add: handleTurnInput_def broadcast_def split: option.splits)

lemma usedWords_handleTurnSubmit:
  "usedWords (handleTurnSubmit e k w now s) = usedWords s
   \<or> usedWords (handleTurnSubmit e k w now s) = insert (toUpperCase e w) (usedWords s)"
proof -
  have "validateWord e w (currentCombo s) (usedWords s) = CORRECT"
    if "validateWord e w (currentCombo s) (usedWords s) \<noteq> WRONG"
       "validateWord e w (currentCombo s) (usedWords s) \<noteq> ALREADY_USED"
    using that validateWord_never_TIMEOUT [of e w "currentCombo s" "usedWords s"]
    by (cases "validateWord e w (currentCombo s) (usedWords s)") simp_all
  then show ?thesis
    by (auto simp add: handleTurnSubmit_def Let_def broadcast_def
                       processTurnResult_CORRECT(2) split: option.splits)
qed

lemma usedWords_tick: "usedWords (tick e now s) = usedWords s"
  by (simp add: tick_def Let_def handleTimeout_def processTurnResult_TIMEOUT_usedWords
                stopTurnTimer_eq split: option.splits)

text \<open>
  The life of \<^verbatim>\<open>usedWords\<close>. It is empty after a \<^verbatim>\<open>startGame\<close> that succeeds and
  after \<^verbatim>\<open>returnToLobby\<close>. Every other operation of the engine, the timer callback and a
  refused \<^verbatim>\<open>startGame\<close> included, leaves every word in the set, in whatever phase. A
  CORRECT submit of the player holding the turn adds the upper-cased word and nothing else.
\<close>

theorem usedWords_lifecycle:
  "(snd (startGame e now s) \<longrightarrow> usedWords (fst (startGame e now s)) = {})
   \<and> usedWords (returnToLobby s) = {}
   \<and> (\<forall>ev. \<not> (\<exists>t. ev = StartGame t \<and> canStartGame s) \<and> ev \<noteq> ReturnToLobby
          \<longrightarrow> usedWords s \<subseteq> usedWords (step e ev s))
   \<and> (phase s = PLAYING \<and> i = currentTurnPlayerId s \<and> map_get (players s) i = Some player
        \<and> state player = ALIVE \<and> validateWord e word (currentCombo s) (usedWords s) = CORRECT
          \<longrightarrow> usedWords (handleTurnSubmit e i word now s) = insert (toUpperCase e word) (usedWords s))"
proof -
  have grow: "usedWords s \<subseteq> usedWords (step e ev s)"
    if "\<not> (\<exists>t. ev = StartGame t \<and> canStartGame s)" "ev \<noteq> ReturnToLobby" for ev
  proof (cases ev)
    case (HandleTurnSubmit k w t)
    with usedWords_handleTurnSubmit [of e k w t s] show ?thesis by auto
  next
    case (StartGame t)
    with that(1) have "\<not> canStartGame s" by simp
    with StartGame show ?thesis by (simp add: usedWords_startGame_fail)
  qed (use that in \<open>simp_all add: usedWords_addPlayer usedWords_removePlayer
         usedWords_setPlayerReady usedWords_handleTurnInput usedWords_tick
         setComboChangePerRound_def cleanup_def stopTurnTimer_eq\<close>)
  have add: "usedWords (handleTurnSubmit e i word now s) = insert (toUpperCase e word) (usedWords s)"
    if "phase s = PLAYING" "i = currentTurnPlayerId s" "map_get (players s) i = Some player"
       "state player = ALIVE" "validateWord e word (currentCombo s) (usedWords s) = CORRECT"
    using that by (simp add: handleTurnSubmit_def Let_def processTurnResult_CORRECT(2))
  from grow add usedWords_startGame [of e now s] usedWords_returnToLobby [of s]
  show ?thesis by blast
qed


lemma demo_playing_submit:
  "(let s = demo_playing; p = players s ! 0 in
      (phase s, currentTurnPlayerId s, map_get (players s) ''p1'' = Some p, state p,
       validateWord demo_env ''kala'' (currentCombo s) (usedWords s)))
   = (PLAYING, ''p1'', True, ALIVE, CORRECT)"
  by code_simp

lemma demo_playing_words:
  "(usedWords demo_playing, toUpperCase demo_env ''kala'') = ({}, ''KALA'')"
  by code_simp

theorem usedWords_lifecycle_witness:
  "usedWords (handleTurnSubmit demo_env ''p1'' ''kala'' 2000 demo_playing) = {''KALA''}
   \<and> usedWords (returnToLobby demo_playing) = {}"
proof -
  note d = demo_playing_submit [unfolded Let_def prod.inject simp_thms]
  from d have g1: "phase demo_playing = PLAYING" by (rule conjunct1)
  from d have "currentTurnPlayerId demo_playing = ''p1''"
    by (rule conjunct2 [THEN conjunct1])
  then have g2: "''p1'' = currentTurnPlayerId demo_playing" by (rule sym)
  from d have g3: "map_get (players demo_playing) ''p1'' = Some (players demo_playing ! 0)"
    by (rule conjunct2 [THEN conjunct2, THEN conjunct1])
  from d have g4: "state (players demo_playing ! 0) = ALIVE"
    by (rule conjunct2 [THEN conjunct2, THEN conjunct2, THEN conjunct1])
  from d have g5: "validateWord demo_env ''kala'' (currentCombo demo_playing) (usedWords demo_playing)
                   = CORRECT"
    by (rule conjunct2 [THEN conjunct2, THEN conjunct2, THEN conjunct2])
  note v = demo_playing_words [unfolded prod.inject]
  note T = usedWords_lifecycle [where e = demo_env and s = demo_playing and i = "''p1''"
             and word = "''kala''" and now = 2000 and player = "players demo_playing ! 0"]
  from T have "phase demo_playing = PLAYING \<and> ''p1'' = currentTurnPlayerId demo_playing
        \<and> map_get (players demo_playing) ''p1'' = Some (players demo_playing ! 0)
        \<and> state (players demo_playing ! 0) = ALIVE
        \<and> validateWord demo_env ''kala'' (currentCombo demo_playing) (usedWords demo_playing) = CORRECT
          \<longrightarrow> usedWords (handleTurnSubmit demo_env ''p1'' ''kala'' 2000 demo_playing)
               = insert (toUpperCase demo_env ''kala'') (usedWords demo_playing)"
    by (rule conjunct2 [THEN conjunct2, THEN conjunct2])
  with g1 g2 g3 g4 g5
  have "usedWords (handleTurnSubmit demo_env ''p1'' ''kala'' 2000 demo_playing)
               = insert (toUpperCase demo_env ''kala'') (usedWords demo_playing)"
    by (simp only: simp_thms)
  then have 1: "usedWords (handleTurnSubmit demo_env ''p1'' ''kala'' 2000 demo_playing) = {''KALA''}"
    by (simp only: v)
  from T have 2: "usedWords (returnToLobby demo_playing) = {}"
    by (rule conjunct2 [THEN conjunct1])
  from 1 2 show ?thesis by (rule conjI)
qed

lemma demo_restart:
  "(let s = demo_ready_again; t = fst (startGame demo_env 9000 s) in
      (phase s, ''KALA'' \<in> usedWords s, snd (startGame demo_env 9000 s),
       phase t, ''KALA'' \<in> usedWords t))
   = (PLAYING, True, True, PLAYING, False)"
  by code_simp

text \<open>
  The restart of a running match. In \<open>demo_ready_again\<close> the phase is PLAYING and KALA is a
  used word; two players are READY, so \<^verbatim>\<open>startGame\<close> is accepted.

  C8: after that \<^verbatim>\<open>startGame\<close> the phase is PLAYING still and KALA is no longer in
  \<^verbatim>\<open>usedWords\<close>: a word has been removed while the phase is PLAYING.
\<close>

theorem restart_clears_usedWords:
  "phase demo_ready_again = PLAYING
   \<and> ''KALA'' \<in> usedWords demo_ready_again
   \<and> snd (startGame demo_env 9000 demo_ready_again)
   \<and> phase (fst (startGame demo_env 9000 demo_ready_again)) = PLAYING
   \<and> ''KALA'' \<notin> usedWords (fst (startGame demo_env 9000 demo_ready_again))"
  using demo_restart [unfolded Let_def prod.inject]
  by (simp only: simp_thms)

section \<open>The round-robin order and the timeout\<close>

lemma advance_scan_first:
  "advance_scan ps i a = Some j \<Longrightarrow> i < length ps \<Longrightarrow> a \<le> length ps
     \<Longrightarrow> \<exists>d < length ps - a. j = (i + d) mod length ps \<and> alive_at ps j
           \<and> (\<forall>d' < d. \<not> alive_at ps ((i + d') mod length ps))"
proof (induction ps i a rule: advance_scan.induct)
  case (1 ps nextIndex attempts)
  have lt: "attempts < length ps"
    using "1.prems"(1) by (subst (asm) advance_scan.simps) (simp split: if_splits)
  then have pos: "0 < length ps" by (cases ps) simp_all
  show ?case
  proof (cases "alive_at ps nextIndex")
    case True
    then have "j = nextIndex"
      using "1.prems"(1) lt
      by (subst (asm) advance_scan.simps) (auto simp add: alive_at_def split: option.splits)
    with True "1.prems"(2) lt show ?thesis
      by (intro exI [of _ 0]) simp
  next
    case False
    have rest: "advance_scan ps ((nextIndex + 1) mod length ps) (attempts + 1) = Some j"
      using "1.prems"(1) lt False
      by (subst (asm) advance_scan.simps) (auto simp add: alive_at_def split: option.splits if_splits)
    have n: "(nextIndex + 1) mod length ps < length ps" using pos by simp
    have a: "attempts + 1 \<le> length ps" using lt by simp
    have "\<exists>d < length ps - (attempts + 1). j = ((nextIndex + 1) mod length ps + d) mod length ps
            \<and> alive_at ps j
            \<and> (\<forall>d' < d. \<not> alive_at ps (((nextIndex + 1) mod length ps + d') mod length ps))"
    proof (cases "map_get ps (map pid ps ! nextIndex)")
      case None
      show ?thesis by (rule "1.IH"(1) [OF lt None rest n a])
    next
      case (Some q)
      with False have "state q \<noteq> ALIVE" by (simp add: alive_at_def)
      then show ?thesis by (rule "1.IH"(2) [OF lt Some _ rest n a])
    qed
    then obtain d where d: "d < length ps - (attempts + 1)"
        "j = ((nextIndex + 1) mod length ps + d) mod length ps" "alive_at ps j"
        "\<forall>d' < d. \<not> alive_at ps (((nextIndex + 1) mod length ps + d') mod length ps)"
      by blast
    have sh: "((nextIndex + 1) mod length ps + x) mod length ps = (nextIndex + Suc x) mod length ps" for x
      by (simp add: mod_add_left_eq)
    have "\<not> alive_at ps ((nextIndex + d') mod length ps)" if "d' < Suc d" for d'
    proof (cases d')
      case 0
      with False "1.prems"(2) show ?thesis by simp
    next
      case (Suc x)
      with that d(4) sh [of x] show ?thesis by auto
    qed
    with d(1,2,3) sh [of d] show ?thesis
      by (intro exI [of _ "Suc d"]) auto
  qed
qed

lemma alive_at_distinct:
  "distinct (map pid ps) \<Longrightarrow> j < length ps \<Longrightarrow> alive_at ps j = (state (ps ! j) = ALIVE)"
  using map_get_distinct_nth [of ps j] by (simp add: alive_at_def)

lemma find_rotate_scan:
  assumes d: "distinct (map pid ps)" and i: "i < length ps"
  shows "find (\<lambda>p. state p = ALIVE) (rotate i ps) = map_option (\<lambda>j. ps ! j) (advance_scan ps i 0)"
proof (cases "advance_scan ps i 0")
  case None
  from advance_scan_None_no_alive [OF None i d]
  have "\<forall>p \<in> set ps. state p \<noteq> ALIVE" by (simp add: filter_empty_conv)
  then have "find (\<lambda>p. state p = ALIVE) (rotate i ps) = None"
    by (simp add: find_None_iff)
  with None show ?thesis by simp
next
  case (Some j)
  from advance_scan_first [OF Some i] obtain k where k: "k < length ps"
      "j = (i + k) mod length ps" "alive_at ps j"
      "\<forall>d' < k. \<not> alive_at ps ((i + d') mod length ps)"
    by auto
  from i have pos: "0 < length ps" by (cases ps) simp_all
  have nr: "rotate i ps ! x = ps ! ((i + x) mod length ps)" if "x < length ps" for x
    using that by (simp add: nth_rotate)
  have al: "alive_at ps ((i + x) mod length ps) = (state (rotate i ps ! x) = ALIVE)"
    if "x < length ps" for x
    using that pos by (simp add: nr alive_at_distinct [OF d])
  have "k < length (rotate i ps) \<and> state (rotate i ps ! k) = ALIVE \<and> ps ! j = rotate i ps ! k
        \<and> (\<forall>x < k. \<not> state (rotate i ps ! x) = ALIVE)"
    using k al nr [OF k(1)] by auto
  then have "find (\<lambda>p. state p = ALIVE) (rotate i ps) = Some (ps ! j)"
    unfolding find_Some_iff by blast
  with Some show ?thesis by simp
qed

lemma advance_scan_bound:
  "advance_scan ps i 0 = Some j \<Longrightarrow> i < length ps \<Longrightarrow> j < length ps"
  using advance_scan_first [of ps i 0 j] by (cases ps) auto

lemma indexOf_ge: "- 1 \<le> indexOf xs x"
  by (induction xs) (auto simp add: Let_def)

lemma nextAlive_scan:
  assumes "distinct (map pid ps)" and "ps \<noteq> []"
  shows "nextAlive ps k
         = map_option (\<lambda>j. ps ! j)
             (advance_scan ps (nat ((indexOf (map pid ps) k + 1) mod int (length ps))) 0)"
proof -
  let ?n = "length ps"
  let ?c = "indexOf (map pid ps) k + 1"
  from assms(2) have pos: "0 < ?n" by simp
  have c: "0 \<le> ?c" using indexOf_ge [of "map pid ps" k] by simp
  have m: "nat (?c mod int ?n) = nat ?c mod ?n"
    using c by (simp add: nat_mod_distrib)
  have lt: "nat ?c mod ?n < ?n" using pos by simp
  have "nextAlive ps k = find (\<lambda>p. state p = ALIVE) (rotate (nat ?c mod ?n) ps)"
    by (simp add: nextAlive_def rotate_conv_mod [symmetric])
  also have "\<dots> = map_option (\<lambda>j. ps ! j) (advance_scan ps (nat ?c mod ?n) 0)"
    by (rule find_rotate_scan [OF assms(1) lt])
  finally show ?thesis by (simp only: m)
qed

lemma advanceToNextPlayer_nextAlive:
  assumes "distinct (map pid (players s))"
  shows "advanceToNextPlayer e f s
         = (case nextAlive (players s) (currentTurnPlayerId s) of
              None \<Rightarrow> s
            | Some q \<Rightarrow> advance_to e f (pid q) s)"
proof (cases "players s = []")
  case True
  then show ?thesis by (simp add: advanceToNextPlayer_def nextAlive_def)
next
  case False
  let ?i = "nat ((indexOf (map pid (players s)) (currentTurnPlayerId s) + 1) mod int (length (players s)))"
  from False have "0 < length (players s)" by simp
  then have i: "?i < length (players s)" by (simp add: nat_less_iff)
  show ?thesis
  proof (cases "advance_scan (players s) ?i 0")
    case None
    with False show ?thesis
      by (simp add: advanceToNextPlayer_def Let_def nextAlive_scan [OF assms False])
  next
    case (Some j)
    from advance_scan_bound [OF Some i] have "map pid (players s) ! j = pid (players s ! j)" by simp
    with Some False show ?thesis
      by (simp add: advanceToNextPlayer_def Let_def nextAlive_scan [OF assms False])
  qed
qed

lemma update_player_map:
  "distinct (map pid ps) \<Longrightarrow> update_player f k ps = map (\<lambda>p. if pid p = k then f p else p) ps"
proof (induction ps)
  case Nil
  then show ?case by simp
next
  case (Cons p ps)
  then have "\<forall>q \<in> set ps. pid q \<noteq> pid p" by (auto simp add: image_iff)
  then have "map (\<lambda>q. if pid q = pid p then f q else q) ps = ps"
    by (simp add: map_idI)
  with Cons show ?case by (cases "pid p = k") auto
qed


text \<open>
  C4. The keys of a map are pairwise different, and the timer callback finds the player
  who holds the turn, with at least one life (as every ALIVE player has). After the
  timeout is processed:
  \<^item> \<^verbatim>\<open>failedCombos\<close> is what it was, with the expiring combo added at the end unless it
    was there already;
  \<^item> that player has one life less, is ELIMINATED exactly when no life is left and keeps
    their state otherwise, and their input is cleared;
  \<^item> the turn goes to the next ALIVE player in round-robin order, whose input is cleared;
    when no player is ALIVE the turn fields stay as they are;
  \<^item> the rotation is not forced: the combo, the round-start player and the count of
    generated combos stay as they are when the round-start player is still ALIVE and is
    not the player the turn goes to; otherwise one combo is generated and the player the
    turn goes to becomes the round-start player.
\<close>

theorem handleTimeout_effect:
  assumes "distinct (map pid (players s))"
    and "map_get (players s) (currentTurnPlayerId s) = Some player"
    and "1 \<le> lives player"
  shows "let s' = handleTimeout e now s;
             cur = currentTurnPlayerId s;
             ps' = map (\<lambda>p. if pid p = cur then timedOut p else p) (players s);
             roundStartStillAlive =
               (case map_get ps' (roundStartPlayerId s) of
                  None \<Rightarrow> False
                | Some r \<Rightarrow> state r = ALIVE)
         in failedCombos s'
              = (if currentCombo s \<in> set (failedCombos s) then failedCombos s
                 else failedCombos s @ [currentCombo s])
          \<and> map_get (players s') cur
              = Some (player\<lparr>lives := lives player - 1,
                             state := (if lives player - 1 = 0 then ELIMINATED else state player),
                             currentInput := []\<rparr>)
          \<and> (case nextAlive ps' cur of
                None \<Rightarrow>
                  players s' = ps' \<and> currentTurnPlayerId s' = cur
                  \<and> currentCombo s' = currentCombo s
                  \<and> combosGenerated s' = combosGenerated s
                  \<and> roundStartPlayerId s' = roundStartPlayerId s
              | Some q \<Rightarrow>
                  players s' = map (\<lambda>p. if pid p = pid q then p\<lparr>currentInput := []\<rparr> else p) ps'
                  \<and> currentTurnPlayerId s' = pid q
                  \<and> (if roundStartStillAlive \<and> pid q \<noteq> roundStartPlayerId s
                      then currentCombo s' = currentCombo s
                           \<and> combosGenerated s' = combosGenerated s
                           \<and> roundStartPlayerId s' = roundStartPlayerId s
                      else currentCombo s' = generateNewCombo e (combosGenerated s)
                           \<and> combosGenerated s' = Suc (combosGenerated s)
                           \<and> roundStartPlayerId s' = pid q))"
proof -
  let ?k = "currentTurnPlayerId s"
  let ?ps = "map (\<lambda>p. if pid p = ?k then timedOut p else p) (players s)"
  let ?mid = "s\<lparr>failedCombos := set_add (failedCombos s) (currentCombo s),
               players := update_player timedOut ?k (players s)\<rparr>"
  let ?s0 = "stopTurnTimer s"
  let ?s' = "handleTimeout e now s"
  have g0: "map_get (players ?s0) ?k = Some player" using assms(2) by (simp add: stopTurnTimer_eq)
  have h: "?s' = processTurnResult e player TIMEOUT [] now ?s0"
    using assms(2) by (simp add: handleTimeout_def Let_def stopTurnTimer_eq)
  have same: "turnFields (?s0\<lparr>failedCombos := set_add (failedCombos ?s0) (currentCombo ?s0),
               players := update_player timedOut ?k (players ?s0)\<rparr>) = turnFields ?mid"
    by (simp add: turnFields_def stopTurnTimer_eq)
  have tf: "turnFields ?s' = turnFields (advanceToNextPlayer e False ?mid)"
    unfolding h processTurnResult_TIMEOUT(1) [OF g0]
    by (rule turnFields_advanceToNextPlayer [OF same])
  have "failedCombos ?s' = set_add (failedCombos s) (currentCombo s)"
    unfolding h processTurnResult_TIMEOUT(2) [OF g0] by (simp add: stopTurnTimer_eq)
  then have c1: "failedCombos ?s'
              = (if currentCombo s \<in> set (failedCombos s) then failedCombos s
                 else failedCombos s @ [currentCombo s])"
    by (simp add: set_add_def)
  have pt: "pid (timedOut p) = pid p" for p by (simp add: timedOut_def)
  have to: "timedOut player = player\<lparr>lives := lives player - 1,
                       state := (if lives player - 1 = 0 then ELIMINATED else state player),
                       currentInput := []\<rparr>"
    using assms(3) by (auto simp add: timedOut_def)
  have "map_get (players ?mid) ?k = Some (timedOut player)"
    using assms(2) by (simp add: map_get_update_player [of timedOut, OF pt])
  then have "map_get (players (advanceToNextPlayer e False ?mid)) ?k = Some (timedOut player)"
    by (rule map_get_advanceToNextPlayer) (simp add: timedOut_def)
  with tf have c2: "map_get (players ?s') ?k
              = Some (player\<lparr>lives := lives player - 1,
                             state := (if lives player - 1 = 0 then ELIMINATED else state player),
                             currentInput := []\<rparr>)"
    by (simp add: turnFields_def to)
  have pm: "players ?mid = ?ps"
    using update_player_map [OF assms(1), of timedOut ?k] by simp
  have dm: "distinct (map pid (players ?mid))"
    using assms(1) by (simp add: update_player_pid [of timedOut, OF pt])
  have dp: "distinct (map pid ?ps)" using dm pm by simp
  have adv: "advanceToNextPlayer e False ?mid
         = (case nextAlive ?ps ?k of None \<Rightarrow> ?mid | Some q \<Rightarrow> advance_to e False (pid q) ?mid)"
    using advanceToNextPlayer_nextAlive [OF dm, of e False] pm by simp
  have c3: "case nextAlive ?ps ?k of
                None \<Rightarrow>
                  players ?s' = ?ps \<and> currentTurnPlayerId ?s' = ?k
                  \<and> currentCombo ?s' = currentCombo s
                  \<and> combosGenerated ?s' = combosGenerated s
                  \<and> roundStartPlayerId ?s' = roundStartPlayerId s
              | Some q \<Rightarrow>
                  players ?s' = map (\<lambda>p. if pid p = pid q then p\<lparr>currentInput := []\<rparr> else p) ?ps
                  \<and> currentTurnPlayerId ?s' = pid q
                  \<and> (if (case map_get ?ps (roundStartPlayerId s) of
                            None \<Rightarrow> False
                          | Some r \<Rightarrow> state r = ALIVE) \<and> pid q \<noteq> roundStartPlayerId s
                      then currentCombo ?s' = currentCombo s
                           \<and> combosGenerated ?s' = combosGenerated s
                           \<and> roundStartPlayerId ?s' = roundStartPlayerId s
                      else currentCombo ?s' = generateNewCombo e (combosGenerated s)
                           \<and> combosGenerated ?s' = Suc (combosGenerated s)
                           \<and> roundStartPlayerId ?s' = pid q)"
  proof (cases "nextAlive ?ps ?k")
    case None
    with adv have "advanceToNextPlayer e False ?mid = ?mid" by simp
    with tf have "turnFields ?s' = turnFields ?mid" by simp
    then have "players ?s' = ?ps \<and> currentTurnPlayerId ?s' = ?k
                  \<and> currentCombo ?s' = currentCombo s
                  \<and> combosGenerated ?s' = combosGenerated s
                  \<and> roundStartPlayerId ?s' = roundStartPlayerId s"
      using pm by (simp add: turnFields_def)
    with None show ?thesis by simp
  next
    case (Some q)
    with adv have "advanceToNextPlayer e False ?mid = advance_to e False (pid q) ?mid" by simp
    with tf have t: "turnFields ?s' = turnFields (advance_to e False (pid q) ?mid)" by simp
    have ra: "roundStartAlive ?mid
              = (case map_get ?ps (roundStartPlayerId s) of None \<Rightarrow> False | Some r \<Rightarrow> state r = ALIVE)"
      using pm by (simp add: roundStartAlive_def)
    have pl: "players (advance_to e False (pid q) ?mid)
              = map (\<lambda>p. if pid p = pid q then p\<lparr>currentInput := []\<rparr> else p) ?ps"
      using update_player_map [OF dp, of "\<lambda>p. p\<lparr>currentInput := []\<rparr>" "pid q"] pm
      by (simp add: advance_to_fields)
    have "players ?s' = map (\<lambda>p. if pid p = pid q then p\<lparr>currentInput := []\<rparr> else p) ?ps
                  \<and> currentTurnPlayerId ?s' = pid q
                  \<and> (if (case map_get ?ps (roundStartPlayerId s) of
                            None \<Rightarrow> False
                          | Some r \<Rightarrow> state r = ALIVE) \<and> pid q \<noteq> roundStartPlayerId s
                      then currentCombo ?s' = currentCombo s
                           \<and> combosGenerated ?s' = combosGenerated s
                           \<and> roundStartPlayerId ?s' = roundStartPlayerId s
                      else currentCombo ?s' = generateNewCombo e (combosGenerated s)
                           \<and> combosGenerated ?s' = Suc (combosGenerated s)
                           \<and> roundStartPlayerId ?s' = pid q)"
      using t pl ra by (auto simp add: turnFields_def advance_to_fields)
    with Some show ?thesis by simp
  qed
  from c1 c2 c3 show ?thesis unfolding Let_def by (intro conjI)
qed


lemma demo_second_turn_hyps:
  "(let s = demo_second_turn; p = players s ! 1 in
      (distinct (map pid (players s)), map_get (players s) (currentTurnPlayerId s) = Some p,
       lives p, state p, currentInput p, currentCombo s, currentTurnPlayerId s, failedCombos s))
   = (True, True, 3, ALIVE, [], ''LA'', ''p2'', [])"
  by code_simp

lemma demo_second_turn_next:
  "(let s = demo_second_turn; cur = currentTurnPlayerId s;
        ps' = map (\<lambda>p. if pid p = cur then timedOut p else p) (players s)
    in (nextAlive ps' cur = Some (players s ! 0),
        (case map_get ps' (roundStartPlayerId s) of None \<Rightarrow> False | Some r \<Rightarrow> state r = ALIVE),
        pid (players s ! 0) \<noteq> roundStartPlayerId s,
        pid (players s ! 0)))
   = (True, True, True, ''p1'')"
  by code_simp

theorem handleTimeout_effect_witness:
  "distinct (map pid (players demo_second_turn))
   \<and> map_get (players demo_second_turn) (currentTurnPlayerId demo_second_turn)
       = Some (players demo_second_turn ! 1)
   \<and> lives (players demo_second_turn ! 1) = 3
   \<and> currentCombo demo_second_turn = ''LA''
   \<and> failedCombos (handleTimeout demo_env 12000 demo_second_turn) = [''LA'']
   \<and> map_get (players (handleTimeout demo_env 12000 demo_second_turn)) ''p2''
        = Some ((players demo_second_turn ! 1)\<lparr>lives := 2\<rparr>)
   \<and> currentTurnPlayerId (handleTimeout demo_env 12000 demo_second_turn) = ''p1''
   \<and> currentCombo (handleTimeout demo_env 12000 demo_second_turn) = ''LA''"
proof -
  note h = demo_second_turn_hyps [unfolded Let_def prod.inject simp_thms]
  from h have d: "distinct (map pid (players demo_second_turn))" by (rule conjunct1)
  from h have g: "map_get (players demo_second_turn) (currentTurnPlayerId demo_second_turn)
       = Some (players demo_second_turn ! 1)"
    by (rule conjunct2 [THEN conjunct1])
  note r = h [THEN conjunct2, THEN conjunct2]
  from r have l3: "lives (players demo_second_turn ! 1) = 3" by (rule conjunct1)
  from r have st: "state (players demo_second_turn ! 1) = ALIVE" by (rule conjunct2 [THEN conjunct1])
  from r have ci: "currentInput (players demo_second_turn ! 1) = []"
    by (rule conjunct2 [THEN conjunct2, THEN conjunct1])
  from r have cc: "currentCombo demo_second_turn = ''LA''"
    by (rule conjunct2 [THEN conjunct2, THEN conjunct2, THEN conjunct1])
  from r have cu: "currentTurnPlayerId demo_second_turn = ''p2''"
    by (rule conjunct2 [THEN conjunct2, THEN conjunct2, THEN conjunct2, THEN conjunct1])
  from r have fc: "failedCombos demo_second_turn = []"
    by (rule conjunct2 [THEN conjunct2, THEN conjunct2, THEN conjunct2, THEN conjunct2])
  have l: "1 \<le> lives (players demo_second_turn ! 1)" by (simp only: l3)
  note n = demo_second_turn_next [unfolded Let_def prod.inject simp_thms]
  note n1 = n [THEN conjunct1]
  note n2 = n [THEN conjunct2, THEN conjunct1]
  note n3 = n [THEN conjunct2, THEN conjunct2, THEN conjunct1]
  note n4 = n [THEN conjunct2, THEN conjunct2, THEN conjunct2]
  note T = handleTimeout_effect [OF d g l, of demo_env 12000, unfolded Let_def]
  from T have "failedCombos (handleTimeout demo_env 12000 demo_second_turn)
              = (if currentCombo demo_second_turn \<in> set (failedCombos demo_second_turn)
                 then failedCombos demo_second_turn
                 else failedCombos demo_second_turn @ [currentCombo demo_second_turn])"
    by (rule conjunct1)
  then have 1: "failedCombos (handleTimeout demo_env 12000 demo_second_turn) = [''LA'']"
    using fc cc by simp
  from T have "map_get (players (handleTimeout demo_env 12000 demo_second_turn))
                 (currentTurnPlayerId demo_second_turn)
        = Some ((players demo_second_turn ! 1)\<lparr>lives := lives (players demo_second_turn ! 1) - 1,
              state := (if lives (players demo_second_turn ! 1) - 1 = 0 then ELIMINATED
                        else state (players demo_second_turn ! 1)),
              currentInput := []\<rparr>)"
    by (rule conjunct2 [THEN conjunct1])
  then have 2: "map_get (players (handleTimeout demo_env 12000 demo_second_turn)) ''p2''
        = Some ((players demo_second_turn ! 1)\<lparr>lives := 2\<rparr>)"
    using st ci l3 cu by simp
  from T [THEN conjunct2, THEN conjunct2] n1 n2 n3
  have c3: "currentTurnPlayerId (handleTimeout demo_env 12000 demo_second_turn)
              = pid (players demo_second_turn ! 0)
            \<and> currentCombo (handleTimeout demo_env 12000 demo_second_turn)
              = currentCombo demo_second_turn"
    by (simp only: option.case simp_thms if_True)
  from c3 have 3: "currentTurnPlayerId (handleTimeout demo_env 12000 demo_second_turn) = ''p1''"
    by (simp only: n4)
  from c3 have 4: "currentCombo (handleTimeout demo_env 12000 demo_second_turn) = ''LA''"
    by (simp only: cc)
  from d g l3 cc 1 2 3 4 show ?thesis by (intro conjI)
qed


section \<open>Typing\<close>

text \<open>
  C7, as the code has it by design. \<^verbatim>\<open>handleTurnInput\<close> changes nothing unless the phase
  is PLAYING, the sender holds the turn and is ALIVE. When it acts, only the roster and
  the messages sent change: the raw text is stored in the sender's \<^verbatim>\<open>currentInput\<close>,
  every other player is as before, and the messages added are all the TURN_INPUT message
  with the sender's id and the text, each to an open socket of a player of the session,
  and every other player whose socket is open is sent one.
\<close>

theorem handleTurnInput_effect:
  "(\<not> (phase s = PLAYING \<and> i = currentTurnPlayerId s
        \<and> (case map_get (players s) i of None \<Rightarrow> False | Some p \<Rightarrow> state p = ALIVE))
      \<longrightarrow> handleTurnInput i input s = s)
   \<and> (\<forall>player. phase s = PLAYING \<and> i = currentTurnPlayerId s
          \<and> map_get (players s) i = Some player \<and> state player = ALIVE
      \<longrightarrow> handleTurnInput i input s
            = s\<lparr>players := players (handleTurnInput i input s),
                sent := sent (handleTurnInput i input s)\<rparr>
        \<and> map pid (players (handleTurnInput i input s)) = map pid (players s)
        \<and> map_get (players (handleTurnInput i input s)) i = Some (player\<lparr>currentInput := input\<rparr>)
        \<and> (\<forall>k. k \<noteq> i \<longrightarrow> map_get (players (handleTurnInput i input s)) k = map_get (players s) k)
        \<and> (\<exists>new. sent (handleTurnInput i input s) = sent s @ new
              \<and> (\<forall>m \<in> set new. snd m = MSG_TURN_INPUT i input
                    \<and> (\<exists>q \<in> set (players s). fst m = wsId (ws q) \<and> readyState (ws q) = OPEN))
              \<and> (\<forall>q \<in> set (players s). pid q \<noteq> i \<and> readyState (ws q) = OPEN
                    \<longrightarrow> (wsId (ws q), MSG_TURN_INPUT i input) \<in> set new)))"
proof -
  let ?t = "handleTurnInput i input s"
  let ?new = "map (\<lambda>p. (wsId (ws p), MSG_TURN_INPUT i input))
                  (filter (\<lambda>p. readyState (ws p) = OPEN) (players s))"
  have noop: "?t = s"
    if "\<not> (phase s = PLAYING \<and> i = currentTurnPlayerId s
        \<and> (case map_get (players s) i of None \<Rightarrow> False | Some p \<Rightarrow> state p = ALIVE))"
    using that by (simp only: handleTurnInput_eq if_False)
  have act: "?t = s\<lparr>players := players ?t, sent := sent ?t\<rparr>
        \<and> map pid (players ?t) = map pid (players s)
        \<and> map_get (players ?t) i = Some (player\<lparr>currentInput := input\<rparr>)
        \<and> (\<forall>k. k \<noteq> i \<longrightarrow> map_get (players ?t) k = map_get (players s) k)
        \<and> (\<exists>new. sent ?t = sent s @ new
              \<and> (\<forall>m \<in> set new. snd m = MSG_TURN_INPUT i input
                    \<and> (\<exists>q \<in> set (players s). fst m = wsId (ws q) \<and> readyState (ws q) = OPEN))
              \<and> (\<forall>q \<in> set (players s). pid q \<noteq> i \<and> readyState (ws q) = OPEN
                    \<longrightarrow> (wsId (ws q), MSG_TURN_INPUT i input) \<in> set new))"
    if g: "phase s = PLAYING \<and> i = currentTurnPlayerId s
          \<and> map_get (players s) i = Some player \<and> state player = ALIVE" for player
  proof -
    from g have ga: "phase s = PLAYING" "i = currentTurnPlayerId s"
      "map_get (players s) i = Some player" "state player = ALIVE"
      by (rule conjunct1, rule conjunct2 [THEN conjunct1],
          rule conjunct2 [THEN conjunct2, THEN conjunct1],
          rule conjunct2 [THEN conjunct2, THEN conjunct2])
    have eq: "?t = s\<lparr>players := update_player (\<lambda>p. p\<lparr>currentInput := input\<rparr>) i (players s),
                     sent := sent s @ ?new\<rparr>"
      using ga by (simp add: handleTurnInput_eq)
    have pc: "pid (p\<lparr>currentInput := input\<rparr>) = pid p" for p by simp
    have 1: "?t = s\<lparr>players := players ?t, sent := sent ?t\<rparr>"
      unfolding eq by simp
    have 2: "map pid (players ?t) = map pid (players s)"
      unfolding eq by (simp add: update_player_pid)
    have 3: "map_get (players ?t) i = Some (player\<lparr>currentInput := input\<rparr>)"
      unfolding eq using ga(3)
      by (simp add: map_get_update_player [of "\<lambda>p. p\<lparr>currentInput := input\<rparr>", OF pc])
    have 4: "\<forall>k. k \<noteq> i \<longrightarrow> map_get (players ?t) k = map_get (players s) k"
      unfolding eq
      by (simp add: map_get_update_player [of "\<lambda>p. p\<lparr>currentInput := input\<rparr>", OF pc])
    have 5: "sent ?t = sent s @ ?new
              \<and> (\<forall>m \<in> set ?new. snd m = MSG_TURN_INPUT i input
                    \<and> (\<exists>q \<in> set (players s). fst m = wsId (ws q) \<and> readyState (ws q) = OPEN))
              \<and> (\<forall>q \<in> set (players s). pid q \<noteq> i \<and> readyState (ws q) = OPEN
                    \<longrightarrow> (wsId (ws q), MSG_TURN_INPUT i input) \<in> set ?new)"
      unfolding eq by auto
    from 5 have 6: "\<exists>new. sent ?t = sent s @ new
              \<and> (\<forall>m \<in> set new. snd m = MSG_TURN_INPUT i input
                    \<and> (\<exists>q \<in> set (players s). fst m = wsId (ws q) \<and> readyState (ws q) = OPEN))
              \<and> (\<forall>q \<in> set (players s). pid q \<noteq> i \<and> readyState (ws q) = OPEN
                    \<longrightarrow> (wsId (ws q), MSG_TURN_INPUT i input) \<in> set new)"
      by (rule exI)
    from 1 2 3 4 6 show ?thesis by (intro conjI)
  qed
  show ?thesis
    by (rule conjI, rule impI, erule noop, rule allI, rule impI, erule act)
qed

lemma demo_playing_typing:
  "(let s = demo_playing; p = players s ! 0 in
      (phase s, currentTurnPlayerId s, map_get (players s) ''p1'' = Some p, state p,
       pid p, currentInput p, currentInput (players (handleTurnInput ''p1'' ''ka'' s) ! 0)))
   = (PLAYING, ''p1'', True, ALIVE, ''p1'', [], ''ka'')"
  by code_simp

theorem handleTurnInput_effect_witness:
  "handleTurnInput ''p2'' ''ka'' demo_playing = demo_playing
   \<and> map_get (players (handleTurnInput ''p1'' ''ka'' demo_playing)) ''p1''
       = Some ((players demo_playing ! 0)\<lparr>currentInput := ''ka''\<rparr>)"
proof -
  note d = demo_playing_typing [unfolded Let_def prod.inject simp_thms]
  from d have g1: "phase demo_playing = PLAYING" by (rule conjunct1)
  from d have cu: "currentTurnPlayerId demo_playing = ''p1''" by (rule conjunct2 [THEN conjunct1])
  then have g2: "''p1'' = currentTurnPlayerId demo_playing" by (rule sym)
  from d have g3: "map_get (players demo_playing) ''p1'' = Some (players demo_playing ! 0)"
    by (rule conjunct2 [THEN conjunct2, THEN conjunct1])
  from d have g4: "state (players demo_playing ! 0) = ALIVE"
    by (rule conjunct2 [THEN conjunct2, THEN conjunct2, THEN conjunct1])
  have ne: "''p2'' \<noteq> currentTurnPlayerId demo_playing" by (simp only: cu) simp
  from handleTurnInput_effect [of demo_playing "''p2''" "''ka''", THEN conjunct1] ne
  have 1: "handleTurnInput ''p2'' ''ka'' demo_playing = demo_playing"
    by (simp only: simp_thms)
  from handleTurnInput_effect [of demo_playing "''p1''" "''ka''", THEN conjunct2,
                                THEN spec, of "players demo_playing ! 0"] g1 g2 g3 g4
  have "handleTurnInput ''p1'' ''ka'' demo_playing
            = demo_playing\<lparr>players := players (handleTurnInput ''p1'' ''ka'' demo_playing),
                sent := sent (handleTurnInput ''p1'' ''ka'' demo_playing)\<rparr>
        \<and> map pid (players (handleTurnInput ''p1'' ''ka'' demo_playing)) = map pid (players demo_playing)
        \<and> map_get (players (handleTurnInput ''p1'' ''ka'' demo_playing)) ''p1''
            = Some ((players demo_playing ! 0)\<lparr>currentInput := ''ka''\<rparr>)"
    by (simp only: simp_thms)
  then have 2: "map_get (players (handleTurnInput ''p1'' ''ka'' demo_playing)) ''p1''
       = Some ((players demo_playing ! 0)\<lparr>currentInput := ''ka''\<rparr>)"
    by (rule conjunct2 [THEN conjunct2])
  from 1 2 show ?thesis by (rule conjI)
qed

text \<open>
  The claim C7 as the specification words it fails on the session \<open>demo_playing\<close>, where
  \<^verbatim>\<open>p1\<close> holds the turn: the stored input of \<^verbatim>\<open>p1\<close> is empty before
  \<^verbatim>\<open>handleTurnInput('p1', 'ka')\<close> and is the text after it, so session state is affected.
\<close>

theorem handleTurnInput_counterexample:
  "pid (players demo_playing ! 0) = ''p1''
   \<and> currentInput (players demo_playing ! 0) = []
   \<and> currentInput (players (handleTurnInput ''p1'' ''ka'' demo_playing) ! 0) = ''ka''"
  using demo_playing_typing [unfolded Let_def prod.inject simp_thms]
  by (simp only: simp_thms)

section \<open>Operations outside their phase\<close>

lemma demo_not_ready_timeout:
  "(let s = demo_not_ready_turn; t = tick demo_env 11000 s in
      (phase s, tickInterval s, currentTurnPlayerId s, pid (players s ! 0),
       state (players s ! 0), lives (players s ! 0),
       pid (players t ! 0), state (players t ! 0), lives (players t ! 0)))
   = (PLAYING, True, ''p1'', ''p1'', CONNECTED, 3, ''p1'', CONNECTED, 2)"
  by code_simp

text \<open>
  C9 at a concrete match. In \<open>demo_not_ready_turn\<close> the phase is PLAYING, the timer is
  registered, and the player who holds the turn is CONNECTED, with three lives. The
  timer callback takes one of them: lives are decremented for a player who is not ALIVE.
\<close>

theorem timeout_takes_life_of_player_not_alive:
  "phase demo_not_ready_turn = PLAYING
   \<and> tickInterval demo_not_ready_turn
   \<and> currentTurnPlayerId demo_not_ready_turn = ''p1''
   \<and> pid (players demo_not_ready_turn ! 0) = ''p1''
   \<and> state (players demo_not_ready_turn ! 0) = CONNECTED
   \<and> lives (players demo_not_ready_turn ! 0) = 3
   \<and> pid (players (tick demo_env 11000 demo_not_ready_turn) ! 0) = ''p1''
   \<and> state (players (tick demo_env 11000 demo_not_ready_turn) ! 0) = CONNECTED
   \<and> lives (players (tick demo_env 11000 demo_not_ready_turn) ! 0) = 2"
  using demo_not_ready_timeout [unfolded Let_def prod.inject]
  by (simp only: simp_thms)

lemma demo_rematch:
  "(let s = demo_rematch_ready; t = fst (startGame demo_env 90000 s) in
      (phase s, map pid (players s), map state (players s), snd (startGame demo_env 90000 s),
       players t ! 0 = players s ! 0,
       phase t, map state (players t), map lives (players t), map score (players t),
       currentTurnPlayerId t))
   = (GAME_OVER, [''p1'', ''p2'', ''p3''], [ALIVE, READY, READY], True, True,
      PLAYING, [ALIVE, ALIVE, ALIVE], [1, 3, 3], [1, 0, 0], ''p1'')"
  by code_simp

text \<open>
  C10 at a concrete match. In \<open>demo_rematch_ready\<close> the phase is GAME_OVER; the winner of
  the match is still ALIVE, with one life and one point, and has not set ready; the two
  other players are READY. \<^verbatim>\<open>startGame\<close> succeeds and leaves the winner unchanged, and so
  the winner does not sit out: they are ALIVE in the new match, with the one life and the
  point of the old one, and they hold the first turn.
\<close>

theorem start_keeps_previous_winner_playing:
  "phase demo_rematch_ready = GAME_OVER
   \<and> map pid (players demo_rematch_ready) = [''p1'', ''p2'', ''p3'']
   \<and> map state (players demo_rematch_ready) = [ALIVE, READY, READY]
   \<and> snd (startGame demo_env 90000 demo_rematch_ready)
   \<and> players (fst (startGame demo_env 90000 demo_rematch_ready)) ! 0 = players demo_rematch_ready ! 0
   \<and> phase (fst (startGame demo_env 90000 demo_rematch_ready)) = PLAYING
   \<and> map state (players (fst (startGame demo_env 90000 demo_rematch_ready))) = [ALIVE, ALIVE, ALIVE]
   \<and> map lives (players (fst (startGame demo_env 90000 demo_rematch_ready))) = [1, 3, 3]
   \<and> map score (players (fst (startGame demo_env 90000 demo_rematch_ready))) = [1, 0, 0]
   \<and> currentTurnPlayerId (fst (startGame demo_env 90000 demo_rematch_ready)) = ''p1''"
  using demo_rematch [unfolded Let_def prod.inject]
  by (simp only: simp_thms)

end
